theory Spec2Isabelle
  imports Main "HOL-Library.AList"
begin

section \<open>JavaScript values and objects\<close>

text \<open>
  The plugin \<^verbatim>\<open>src/plugins/customBorders/customBorders.js\<close> stores plain JavaScript
  objects in the cell metadata and in the overlay list, and assigns properties by a
  computed name (\<^verbatim>\<open>bordersMeta[place] = ...\<close>). An object is therefore an association
  list from property names to values, in insertion order; assigning a property is
  \<open>AList.update\<close> (overwrite in place, else append), reading one is \<open>map_of\<close>, where
  \<open>None\<close> stands for \<^verbatim>\<open>undefined\<close>.
\<close>

datatype jsval = Bool bool | Num int | Str string | Obj "(string \<times> jsval) list"

type_synonym jsobj = "(string \<times> jsval) list"

text \<open>
  \<^verbatim>\<open>hasOwnProperty(object, key)\<close> of \<^verbatim>\<open>helpers/object\<close>: the key is an own property.
\<close>

definition hasOwnProperty :: "jsobj \<Rightarrow> string \<Rightarrow> bool" where
  "hasOwnProperty obj key = (case map_of obj key of None \<Rightarrow> False | Some v \<Rightarrow> True)"

text \<open>
  Modelled from the spec: the helper \<^verbatim>\<open>rangeEach(rangeFrom, rangeTo, iteratee)\<close> of
  \<^verbatim>\<open>helpers/number\<close> is not among the sources. It calls the iteratee once for every
  index from \<open>rangeFrom\<close> to \<open>rangeTo\<close>, both included, in ascending order, and returns
  nothing; an empty interval gives no call. The iteratee is a state transformer here.
\<close>

definition rangeEach :: "int \<Rightarrow> int \<Rightarrow> (int \<Rightarrow> 's \<Rightarrow> 's) \<Rightarrow> 's \<Rightarrow> 's" where
  "rangeEach rangeFrom rangeTo iteratee s = fold iteratee [rangeFrom..rangeTo] s"

section \<open>Border model (\<^verbatim>\<open>./utils\<close>)\<close>

text \<open>Decimal rendering of the numbers that a template string interpolates.\<close>

fun showNat :: "nat \<Rightarrow> string" where
  "showNat n =
     (if n < 10 then [''0123456789'' ! n]
      else showNat (n div 10) @ [''0123456789'' ! (n mod 10)])"

declare showNat.simps [simp del]

definition showInt :: "int \<Rightarrow> string" where
  "showInt i = (if i < 0 then CHR ''-'' # showNat (nat (- i)) else showNat (nat i))"

text \<open>
  Modelled from the spec: \<^verbatim>\<open>createClassName(row, col)\<close> of \<^verbatim>\<open>./utils\<close> is not among the
  sources. The class name is a deterministic function of the coordinates, and it is
  border-prefixed (the settings reconciliation looks for \<^verbatim>\<open>td[class^="border"]\<close>).
\<close>

definition createClassName :: "int \<Rightarrow> int \<Rightarrow> string" where
  "createClassName row col = ''border_row'' @ showInt row @ ''col'' @ showInt col"

text \<open>
  Modelled from the spec: \<^verbatim>\<open>createSingleEmptyBorder()\<close> is the hidden side style
  (\<^verbatim>\<open>{hidden: true}\<close>), used to blank one side.
\<close>

definition createSingleEmptyBorder :: jsval where
  "createSingleEmptyBorder = Obj [(''hidden'', Bool True)]"

text \<open>
  Modelled from the spec: \<^verbatim>\<open>createDefaultCustomBorder()\<close> is the default visible side
  style; its width and colour are implementation-defined, one pixel of black here.
\<close>

definition createDefaultCustomBorder :: jsval where
  "createDefaultCustomBorder = Obj [(''width'', Num 1), (''color'', Str ''#000'')]"

text \<open>
  Modelled from the spec: \<^verbatim>\<open>createEmptyBorders(row, col)\<close> builds a descriptor with all
  four sides hidden and the class name of the cell. Its properties are those the JSDoc
  of \<^verbatim>\<open>insertBorderIntoSettings\<close> lists: \<^verbatim>\<open>row\<close>, \<^verbatim>\<open>col\<close>, the four sides,
  \<^verbatim>\<open>className\<close> and \<^verbatim>\<open>border\<close> (an object with \<^verbatim>\<open>color\<close>, \<^verbatim>\<open>width\<close> and
  \<^verbatim>\<open>cornerVisible\<close>).
\<close>

definition createEmptyBorders :: "int \<Rightarrow> int \<Rightarrow> jsobj" where
  "createEmptyBorders row col =
     [(''className'', Str (createClassName row col)),
      (''border'', Obj [(''width'', Num 1), (''color'', Str ''#000''),
                        (''cornerVisible'', Bool False)]),
      (''row'', Num row),
      (''col'', Num col),
      (''top'', createSingleEmptyBorder),
      (''right'', createSingleEmptyBorder),
      (''bottom'', createSingleEmptyBorder),
      (''left'', createSingleEmptyBorder)]"

text \<open>
  The guarded assignment
  \<^verbatim>\<open>if (hasOwnProperty(rowObj, 'top')) { border.top = rowObj.top; }\<close>, for any side name.
\<close>

definition assignOwn :: "jsobj \<Rightarrow> string \<Rightarrow> jsobj \<Rightarrow> jsobj" where
  "assignOwn rowObj side border =
     (if hasOwnProperty rowObj side
      then (case map_of rowObj side of
              None \<Rightarrow> border
            | Some v \<Rightarrow> AList.update side v border)
      else border)"

text \<open>
  Modelled from the spec: \<^verbatim>\<open>extendDefaultBorder(defaultBorder, customBorder)\<close> is not
  among the sources. For each of the four sides, a side that the configuration entry
  sets overwrites the descriptor's side; the other sides are left as they are.
\<close>

definition extendDefaultBorder :: "jsobj \<Rightarrow> jsobj \<Rightarrow> jsobj" where
  "extendDefaultBorder defaultBorder customBorder =
     assignOwn customBorder ''left''
       (assignOwn customBorder ''bottom''
         (assignOwn customBorder ''right''
           (assignOwn customBorder ''top'' defaultBorder)))"

section \<open>Configuration\<close>

record cellCoords =
  row :: int
  col :: int

record cellRange =
  from' :: cellCoords
  to' :: cellCoords

text \<open>
  An entry of the \<^verbatim>\<open>customBorders\<close> array has one of the two forms of the JSDoc example
  of the class: an object with a \<^verbatim>\<open>range\<close>, or an object with \<^verbatim>\<open>row\<close> and \<^verbatim>\<open>col\<close>.
  \<^verbatim>\<open>createCustomBorders\<close> tells them apart by \<^verbatim>\<open>customBorders[index].range\<close>. The jsobj
  holds the entry's own side properties (\<^verbatim>\<open>top\<close>, \<^verbatim>\<open>right\<close>, \<^verbatim>\<open>bottom\<close>, \<^verbatim>\<open>left\<close>).
\<close>

datatype borderConfig =
    RangeEntry cellRange jsobj
  | PointEntry int int jsobj

text \<open>
  The value of the \<^verbatim>\<open>customBorders\<close> setting: absent (\<^verbatim>\<open>undefined\<close>), a boolean, or
  an array of entries. Every array is truthy, also the empty one.
\<close>

datatype setting = Absent | Flag bool | Entries "borderConfig list"

fun truthy :: "setting \<Rightarrow> bool" where
  "truthy Absent = False"
| "truthy (Flag b) = b"
| "truthy (Entries es) = True"

section \<open>The grid instance\<close>

text \<open>
  A \<^verbatim>\<open>Selection(settings, cellRange)\<close> of the overlay list \<^verbatim>\<open>hot.view.wt.selections\<close>.
  The three coordinates of its \<^verbatim>\<open>CellRange\<close> are one and the same object
  \<^verbatim>\<open>{row: border.row, col: border.col}\<close>.
\<close>

record selection =
  settings :: jsobj
  coordinates :: "jsval option \<times> jsval option"

text \<open>A node of the rendered tree, with the parent link that \<^verbatim>\<open>removeChild\<close> clears.\<close>

record node =
  nodeName :: string
  classList :: "string list"
  parentNode :: "nat option"

text \<open>The calls that reach the host grid, in the order they are made.\<close>

datatype call =
    SetCellMeta int int
  | RemoveCellMeta int int
  | SelectionReplace nat
  | SelectionPush
  | Render
  | Draw

text \<open>
  The state one plugin instance works on: the setting \<^verbatim>\<open>hot.getSettings().customBorders\<close>,
  the plugin's \<^verbatim>\<open>savedSettings\<close> (\<open>None\<close> is \<^verbatim>\<open>undefined\<close>), the \<^verbatim>\<open>borders\<close> key of the
  cell metadata, the overlay list, the rendered tree under \<^verbatim>\<open>hot.rootElement\<close> (nodes are
  named by their position in \<open>nodes\<close>, which is document order), and the log of calls.
\<close>

record hot =
  customBorders :: setting
  savedSettings :: "borderConfig list option"
  cellMeta :: "int \<times> int \<Rightarrow> jsobj option"
  selections :: "selection list"
  nodes :: "node list"
  rootElement :: nat
  calls :: "call list"

text \<open>
  Modelled from the spec: the metadata store of the host (\<^verbatim>\<open>hot.setCellMeta\<close>,
  \<^verbatim>\<open>hot.removeCellMeta\<close>, \<^verbatim>\<open>hot.getCellMeta\<close>) is a key/value store per cell, read here at
  the key \<^verbatim>\<open>borders\<close>; writing replaces the entry, removing deletes it.
\<close>

definition setCellMeta :: "int \<Rightarrow> int \<Rightarrow> jsobj \<Rightarrow> hot \<Rightarrow> hot" where
  "setCellMeta r c border s =
     s\<lparr>cellMeta := (cellMeta s)((r, c) \<mapsto> border), calls := calls s @ [SetCellMeta r c]\<rparr>"

definition removeCellMeta :: "int \<Rightarrow> int \<Rightarrow> hot \<Rightarrow> hot" where
  "removeCellMeta r c s =
     s\<lparr>cellMeta := (cellMeta s)((r, c) := None), calls := calls s @ [RemoveCellMeta r c]\<rparr>"

text \<open>
  Modelled from the spec: \<^verbatim>\<open>hot.render()\<close> and \<^verbatim>\<open>hot.view.wt.draw(true)\<close> ask the
  rendering engine of the host to redraw. The engine is not part of the plugin: the
  request is recorded.
\<close>

definition render :: "hot \<Rightarrow> hot" where
  "render s = s\<lparr>calls := calls s @ [Render]\<rparr>"

definition draw :: "hot \<Rightarrow> hot" where
  "draw s = s\<lparr>calls := calls s @ [Draw]\<rparr>"

section \<open>Overlay registry\<close>

text \<open>
  \<^verbatim>\<open>getSettingIndex(className)\<close>, lines 130-138. The comparison and the \<^verbatim>\<open>return index\<close>
  stand inside the arrow function handed to \<^verbatim>\<open>rangeEach\<close>: they give the value of one
  call of the iteratee, which \<^verbatim>\<open>rangeEach\<close> drops. The only \<^verbatim>\<open>return\<close> of the method
  itself is \<^verbatim>\<open>return -1\<close>.
\<close>

definition getSettingIndex :: "jsval option \<Rightarrow> hot \<Rightarrow> int" where
  "getSettingIndex className s =
     (let returned =
        map (\<lambda>index.
               if map_of (settings (selections s ! nat index)) ''className'' = className
               then Some index else None)
            [0..int (length (selections s)) - 1]
      in - 1)"

text \<open>\<^verbatim>\<open>insertBorderIntoSettings(border)\<close>, lines 145-158.\<close>

definition insertBorderIntoSettings :: "jsobj \<Rightarrow> hot \<Rightarrow> hot" where
  "insertBorderIntoSettings border s =
     (let coords = (map_of border ''row'', map_of border ''col'');
          sel = \<lparr>settings = border, coordinates = coords\<rparr>;
          index = getSettingIndex (map_of border ''className'') s
      in if index \<ge> 0
         then s\<lparr>selections := (selections s)[nat index := sel],
                calls := calls s @ [SelectionReplace (nat index)]\<rparr>
         else s\<lparr>selections := selections s @ [sel],
                calls := calls s @ [SelectionPush]\<rparr>)"

section \<open>Declarative configuration\<close>

text \<open>\<^verbatim>\<open>prepareBorderFromCustomAdded(row, col, borderObj)\<close>, lines 167-174.\<close>

definition prepareBorderFromCustomAdded :: "int \<Rightarrow> int \<Rightarrow> jsobj \<Rightarrow> hot \<Rightarrow> hot" where
  "prepareBorderFromCustomAdded r c borderObj s =
     (let border = createEmptyBorders r c;
          border = extendDefaultBorder border borderObj
      in insertBorderIntoSettings border (setCellMeta r c border s))"

text \<open>
  The descriptor and the counter \<^verbatim>\<open>add\<close> that the inner iteratee of
  \<^verbatim>\<open>prepareBorderFromCustomAddedRange\<close> computes for one cell, lines 186-219: \<^verbatim>\<open>add\<close>
  counts the boundary conditions the cell meets, whether or not the entry names the side.
\<close>

definition rangeCellBorder :: "cellRange \<Rightarrow> jsobj \<Rightarrow> int \<Rightarrow> int \<Rightarrow> nat \<times> jsobj" where
  "rangeCellBorder rng rowObj rowIndex colIndex =
     (let border = createEmptyBorders rowIndex colIndex;
          add = (0::nat);
          (add, border) =
            (if rowIndex = row (from' rng)
             then (add + 1, assignOwn rowObj ''top'' border) else (add, border));
          (add, border) =
            (if rowIndex = row (to' rng)
             then (add + 1, assignOwn rowObj ''bottom'' border) else (add, border));
          (add, border) =
            (if colIndex = col (from' rng)
             then (add + 1, assignOwn rowObj ''left'' border) else (add, border));
          (add, border) =
            (if colIndex = col (to' rng)
             then (add + 1, assignOwn rowObj ''right'' border) else (add, border))
      in (add, border))"

text \<open>The inner iteratee as a whole, lines 185-225.\<close>

definition prepareRangeCell :: "cellRange \<Rightarrow> jsobj \<Rightarrow> int \<Rightarrow> int \<Rightarrow> hot \<Rightarrow> hot" where
  "prepareRangeCell rng rowObj rowIndex colIndex s =
     (let (add, border) = rangeCellBorder rng rowObj rowIndex colIndex
      in if add > 0
         then insertBorderIntoSettings border (setCellMeta rowIndex colIndex border s)
         else s)"

text \<open>
  \<^verbatim>\<open>prepareBorderFromCustomAddedRange(rowObj)\<close>, lines 181-227; the entry is given as its
  range and its side properties.
\<close>

definition prepareBorderFromCustomAddedRange :: "cellRange \<Rightarrow> jsobj \<Rightarrow> hot \<Rightarrow> hot" where
  "prepareBorderFromCustomAddedRange rng rowObj s =
     rangeEach (row (from' rng)) (row (to' rng))
       (\<lambda>rowIndex.
          rangeEach (col (from' rng)) (col (to' rng))
            (\<lambda>colIndex. prepareRangeCell rng rowObj rowIndex colIndex))
       s"

text \<open>
  \<^verbatim>\<open>createCustomBorders(customBorders)\<close>, lines 354-366. The argument is an array, or the
  boolean that \<^verbatim>\<open>setsBordersSettings\<close> passes when nothing was saved: a boolean has no
  \<^verbatim>\<open>length\<close>, the upper bound \<^verbatim>\<open>undefined - 1\<close> is \<^verbatim>\<open>NaN\<close>, and no index is below it.
\<close>

definition createCustomBordersEntry :: "borderConfig \<Rightarrow> hot \<Rightarrow> hot" where
  "createCustomBordersEntry entry s =
     (case entry of
        RangeEntry rng rowObj \<Rightarrow> prepareBorderFromCustomAddedRange rng rowObj s
      | PointEntry r c borderObj \<Rightarrow> prepareBorderFromCustomAdded r c borderObj s)"

definition createCustomBorders :: "setting \<Rightarrow> hot \<Rightarrow> hot" where
  "createCustomBorders cb s =
     (let s1 =
        (case cb of
           Entries es \<Rightarrow>
             rangeEach 0 (int (length es) - 1)
               (\<lambda>index. createCustomBordersEntry (es ! nat index)) s
         | Flag b \<Rightarrow> s
         | Absent \<Rightarrow> s)
      in draw (render s1))"

section \<open>Rendered tree\<close>

text \<open>
  Reading a property of \<^verbatim>\<open>null\<close> throws a \<^verbatim>\<open>TypeError\<close>; it is the one exception the
  plugin's own statements can raise on a well-formed configuration.
\<close>

datatype error = TypeError

text \<open>
  The two selectors the plugin builds: \<^verbatim>\<open>`.${borderClassName}`\<close>, and the literal
  \<^verbatim>\<open>td[class^="border"]\<close>.
\<close>

datatype selector = ClassSelector string | TdClassPrefix string

text \<open>The \<^verbatim>\<open>className\<close> property: the classes of the node, separated by one space.\<close>

definition className :: "node \<Rightarrow> string" where
  "className n =
     (case classList n of
        [] \<Rightarrow> []
      | c # cs \<Rightarrow> foldl (\<lambda>acc x. acc @ CHR '' '' # x) c cs)"

text \<open>
  Whether node \<open>i\<close> lies under \<open>root\<close>, following the parent links; the fuel bounds the
  walk by the number of nodes (enough on a tree: \<open>descendsFrom_enough_fuel\<close>).
\<close>

fun descendsFrom :: "node list \<Rightarrow> nat \<Rightarrow> nat \<Rightarrow> nat \<Rightarrow> bool" where
  "descendsFrom ns root 0 i = False"
| "descendsFrom ns root (Suc fuel) i =
     (if i < length ns
      then (case parentNode (ns ! i) of
              None \<Rightarrow> False
            | Some p \<Rightarrow> (if p = root then True else descendsFrom ns root fuel p))
      else False)"

text \<open>
  Modelled from the spec: the browser's selector engine is the query-by-class-name of
  the DOM contract. A class selector matches a node that carries the class; the
  attribute selector matches a table cell whose \<^verbatim>\<open>class\<close> attribute starts with the
  prefix. (A name with a space in it is no class of any node.)
\<close>

fun matches :: "selector \<Rightarrow> node \<Rightarrow> bool" where
  "matches (ClassSelector c) n = List.member (classList n) c"
| "matches (TdClassPrefix p) n =
     (if nodeName n = ''TD'' then take (length p) (className n) = p else False)"

text \<open>
  \<^verbatim>\<open>hot.rootElement.querySelectorAll(selector)\<close>: the matching nodes under the root
  element, in document order. The result is a static list.
\<close>

definition querySelectorAll :: "selector \<Rightarrow> hot \<Rightarrow> nat list" where
  "querySelectorAll sel s =
     filter (\<lambda>i. if matches sel (nodes s ! i)
                  then descendsFrom (nodes s) (rootElement s) (length (nodes s)) i
                  else False)
       [0..<length (nodes s)]"

text \<open>The loops whose iteratee can throw stop at the first exception.\<close>

primrec foldE :: "('a \<Rightarrow> 's \<Rightarrow> error + 's) \<Rightarrow> 'a list \<Rightarrow> 's \<Rightarrow> error + 's" where
  "foldE f [] s = Inr s"
| "foldE f (x # xs) s = (case f x s of Inl e \<Rightarrow> Inl e | Inr s' \<Rightarrow> foldE f xs s')"

definition rangeEachE ::
  "int \<Rightarrow> int \<Rightarrow> (int \<Rightarrow> 's \<Rightarrow> error + 's) \<Rightarrow> 's \<Rightarrow> error + 's" where
  "rangeEachE rangeFrom rangeTo iteratee s = foldE iteratee [rangeFrom..rangeTo] s"

text \<open>
  The iteratee of \<^verbatim>\<open>removeBordersFromDom\<close> for one node of the query result, lines
  238-246. A node of the result is an element, so \<^verbatim>\<open>if (borders[index])\<close> holds. A
  parent link that leaves the list is a node without a parent.
\<close>

definition removeBorderNode :: "nat \<Rightarrow> hot \<Rightarrow> error + hot" where
  "removeBorderNode n s =
     (let ns = nodes s in
      if nodeName (ns ! n) \<noteq> ''TD''
      then (case parentNode (ns ! n) of
              None \<Rightarrow> Inl TypeError
            | Some parent \<Rightarrow>
                (case (if parent < length ns then parentNode (ns ! parent) else None) of
                   None \<Rightarrow> Inr s
                 | Some grand \<Rightarrow>
                     Inr (s\<lparr>nodes := ns[parent := (ns ! parent)\<lparr>parentNode := None\<rparr>]\<rparr>)))
      else Inr s)"

text \<open>\<^verbatim>\<open>removeBordersFromDom(borderClassName)\<close>, lines 234-248.\<close>

definition removeBordersFromDom :: "string \<Rightarrow> hot \<Rightarrow> error + hot" where
  "removeBordersFromDom borderClassName s =
     (let borders = querySelectorAll (ClassSelector borderClassName) s
      in rangeEachE 0 (int (length borders) - 1)
           (\<lambda>index. removeBorderNode (borders ! nat index)) s)"

section \<open>Menu actions\<close>

text \<open>\<^verbatim>\<open>removeAllBorders(row, col)\<close>, lines 256-261.\<close>

definition removeAllBorders :: "int \<Rightarrow> int \<Rightarrow> hot \<Rightarrow> error + hot" where
  "removeAllBorders r c s =
     (let borderClassName = createClassName r c
      in case removeBordersFromDom borderClassName s of
           Inl e \<Rightarrow> Inl e
         | Inr s1 \<Rightarrow> Inr (removeCellMeta r c s1))"

text \<open>
  \<^verbatim>\<open>setBorder(row, col, place, remove)\<close>, lines 271-291. An argument \<^verbatim>\<open>remove\<close> that the
  caller leaves out is \<^verbatim>\<open>undefined\<close>, which is falsy: \<open>False\<close>.
\<close>

definition setBorder :: "int \<Rightarrow> int \<Rightarrow> string \<Rightarrow> bool \<Rightarrow> hot \<Rightarrow> error + hot" where
  "setBorder r c place remove s =
     (let bordersMeta =
            (case cellMeta s (r, c) of
               None \<Rightarrow> createEmptyBorders r c
             | Some b \<Rightarrow>
                 (case map_of b ''border'' of
                    None \<Rightarrow> createEmptyBorders r c
                  | Some v \<Rightarrow> b));
          bordersMeta =
            (if remove then AList.update place createSingleEmptyBorder bordersMeta
             else AList.update place createDefaultCustomBorder bordersMeta);
          s1 = setCellMeta r c bordersMeta s;
          borderClassName = createClassName r c
      in case removeBordersFromDom borderClassName s1 of
           Inl e \<Rightarrow> Inl e
         | Inr s2 \<Rightarrow> Inr (render (insertBorderIntoSettings bordersMeta s2)))"

text \<open>\<^verbatim>\<open>prepareBorder(range, place, remove)\<close>, lines 300-346.\<close>

definition prepareBorder :: "cellRange \<Rightarrow> string \<Rightarrow> bool \<Rightarrow> hot \<Rightarrow> error + hot" where
  "prepareBorder rng place remove s =
     (if row (from' rng) = row (to' rng) \<and> col (from' rng) = col (to' rng)
      then (if place = ''noBorders''
            then removeAllBorders (row (from' rng)) (col (from' rng)) s
            else setBorder (row (from' rng)) (col (from' rng)) place remove s)
      else if place = ''noBorders''
      then rangeEachE (col (from' rng)) (col (to' rng))
             (\<lambda>colIndex.
                rangeEachE (row (from' rng)) (row (to' rng))
                  (\<lambda>rowIndex. removeAllBorders rowIndex colIndex)) s
      else if place = ''top''
      then rangeEachE (col (from' rng)) (col (to' rng))
             (\<lambda>topCol. setBorder (row (from' rng)) topCol place remove) s
      else if place = ''right''
      then rangeEachE (row (from' rng)) (row (to' rng))
             (\<lambda>rowRight. setBorder rowRight (col (to' rng)) place False) s
      else if place = ''bottom''
      then rangeEachE (col (from' rng)) (col (to' rng))
             (\<lambda>bottomCol. setBorder (row (to' rng)) bottomCol place False) s
      else if place = ''left''
      then rangeEachE (row (from' rng)) (row (to' rng))
             (\<lambda>rowLeft. setBorder rowLeft (col (from' rng)) place False) s
      else Inr s)"

section \<open>Settings reconciliation\<close>

text \<open>
  The first half of \<^verbatim>\<open>setsBordersSettings\<close>, lines 407-411: the blanket purge over the
  table cells whose class starts with \<^verbatim>\<open>border\<close>.
\<close>

definition purgeBorderNodes :: "hot \<Rightarrow> error + hot" where
  "purgeBorderNodes s =
     (let bordersFromTable = querySelectorAll (TdClassPrefix ''border'') s
      in rangeEachE 0 (int (length bordersFromTable) - 1)
           (\<lambda>index st.
              removeBordersFromDom (className (nodes st ! (bordersFromTable ! nat index))) st)
           s)"

text \<open>
  The second half, lines 413-423, on the setting read at line 406. \<^verbatim>\<open>this.savedSettings\<close>
  is \<^verbatim>\<open>undefined\<close> or an array, and an array is truthy.
\<close>

definition applyBordersSettings :: "setting \<Rightarrow> hot \<Rightarrow> hot" where
  "applyBordersSettings cb s =
     (if truthy cb
      then (case cb of
              Entries es \<Rightarrow> createCustomBorders cb (s\<lparr>savedSettings := Some es\<rparr>)
            | Flag b \<Rightarrow>
                (let borders = (case savedSettings s of Some saved \<Rightarrow> Entries saved | None \<Rightarrow> cb)
                 in createCustomBorders borders s)
            | Absent \<Rightarrow> s)
      else s)"

text \<open>\<^verbatim>\<open>setsBordersSettings()\<close>, lines 405-424.\<close>

definition setsBordersSettings :: "hot \<Rightarrow> error + hot" where
  "setsBordersSettings s =
     (let cb = customBorders s
      in case purgeBorderNodes s of
           Inl e \<Rightarrow> Inl e
         | Inr s1 \<Rightarrow> Inr (applyBordersSettings cb s1))"

section \<open>Example states\<close>

text \<open>A grid with no border annotation and only its root element rendered.\<close>

definition emptyHot :: hot where
  "emptyHot =
     \<lparr>customBorders = Absent, savedSettings = None, cellMeta = (\<lambda>cell. None),
      selections = [],
      nodes = [\<lparr>nodeName = ''DIV'', classList = [''handsontable''], parentNode = None\<rparr>],
      rootElement = 0, calls = []\<rparr>"

text \<open>
  A rendered border of cell (0,0): under the root (node 1; node 0 is the document body)
  a holder (2), in it the wrapper (3) of the border line (4); the table cell (5) carries
  the class of its border as well.
\<close>

definition borderNodes :: "node list" where
  "borderNodes =
     [\<lparr>nodeName = ''BODY'', classList = [], parentNode = None\<rparr>,
      \<lparr>nodeName = ''DIV'', classList = [''handsontable''], parentNode = Some 0\<rparr>,
      \<lparr>nodeName = ''DIV'', classList = [''htBorders''], parentNode = Some 1\<rparr>,
      \<lparr>nodeName = ''DIV'', classList = [], parentNode = Some 2\<rparr>,
      \<lparr>nodeName = ''DIV'', classList = [''wtBorder'', ''border_row0col0''], parentNode = Some 3\<rparr>,
      \<lparr>nodeName = ''TD'', classList = [''border_row0col0''], parentNode = Some 1\<rparr>]"

definition renderedHot :: hot where
  "renderedHot =
     \<lparr>customBorders = Absent, savedSettings = None,
      cellMeta = (\<lambda>cell. None)((0, 0) \<mapsto> createEmptyBorders 0 0),
      selections = [\<lparr>settings = createEmptyBorders 0 0,
                     coordinates = (Some (Num 0), Some (Num 0))\<rparr>],
      nodes = borderNodes, rootElement = 1, calls = []\<rparr>"

definition disabledHot :: hot where
  "disabledHot = renderedHot\<lparr>customBorders := Flag False\<rparr>"

text \<open>Ranges of one cell, of one row and of one column.\<close>

definition cellRange00 :: cellRange where
  "cellRange00 = \<lparr>from' = \<lparr>row = 0, col = 0\<rparr>, to' = \<lparr>row = 0, col = 0\<rparr>\<rparr>"

definition rowRange :: cellRange where
  "rowRange = \<lparr>from' = \<lparr>row = 0, col = 0\<rparr>, to' = \<lparr>row = 0, col = 1\<rparr>\<rparr>"

definition columnRange :: cellRange where
  "columnRange = \<lparr>from' = \<lparr>row = 0, col = 0\<rparr>, to' = \<lparr>row = 1, col = 0\<rparr>\<rparr>"

text \<open>
  The configuration \<^verbatim>\<open>[{row: 1, col: 1, left: {width: 2, color: 'red'}}]\<close>, a grid
  configured with it, and the same grid after the configuration was applied, the
  annotation of cell (1,1) was removed and the setting was replaced by \<^verbatim>\<open>true\<close>.
\<close>

definition leftRed :: "borderConfig list" where
  "leftRed = [PointEntry 1 1 [(''left'', Obj [(''width'', Num 2), (''color'', Str ''red'')])]]"

definition configuredHot :: hot where
  "configuredHot = emptyHot\<lparr>customBorders := Entries leftRed\<rparr>"

definition reenabledHot :: hot where
  "reenabledHot =
     (removeCellMeta 1 1 (projr (setsBordersSettings configuredHot)))\<lparr>customBorders := Flag True\<rparr>"

section \<open>Notions used in the statements\<close>

text \<open>
  The descriptors that applying a configuration array writes, cell by cell: the metadata
  it leaves on a grid that had none.
\<close>

definition appliedDescriptors :: "borderConfig list \<Rightarrow> (int \<times> int \<Rightarrow> jsobj option)" where
  "appliedDescriptors es = cellMeta (createCustomBorders (Entries es) emptyHot)"

text \<open>
  How a purge may change a node: its name and classes stay, and its parent link stays
  or is cleared.
\<close>

definition linkCleared :: "node \<Rightarrow> node \<Rightarrow> bool" where
  "linkCleared a b =
     (nodeName b = nodeName a \<and> classList b = classList a \<and>
      (if parentNode b = None then True else parentNode b = parentNode a))"

text \<open>
  A rendered tree in document order: the parent of a node stands before the node.
\<close>

definition wellFormedTree :: "node list \<Rightarrow> bool" where
  "wellFormedTree ns =
     list_all (\<lambda>i. case parentNode (ns ! i) of None \<Rightarrow> True | Some p \<Rightarrow> p < i)
       [0..<length ns]"

section \<open>Loops\<close>

text \<open>
  A loop over the indices of a list visits the elements of the list in order.
\<close>

lemma rangeEach_fold: "rangeEach a b f = fold f [a..b]"
  by (rule ext) (simp add: rangeEach_def)

lemma map_nth_upto: "map (\<lambda>i. xs ! nat i) [0..int (length xs) - 1] = xs"
proof (induction xs rule: rev_induct)
  case Nil
  then show ?case by simp
next
  case (snoc x xs)
  have "[0..int (length (xs @ [x])) - 1] = [0..int (length xs) - 1] @ [int (length xs)]"
    by (simp add: upto_rec2)
  moreover have "map (\<lambda>i. (xs @ [x]) ! nat i) [0..int (length xs) - 1] =
      map (\<lambda>i. xs ! nat i) [0..int (length xs) - 1]"
    by (rule map_cong) (auto simp: nth_append)
  ultimately show ?case using snoc by simp
qed

lemma fold_index: "fold (\<lambda>i. f (xs ! nat i)) [0..int (length xs) - 1] = fold f xs"
proof -
  have "fold (\<lambda>i. f (xs ! nat i)) is = fold f (map (\<lambda>i. xs ! nat i) is)" for "is"
    by (simp add: fold_map comp_def)
  then show ?thesis by (simp add: map_nth_upto)
qed

lemma foldE_map: "foldE (\<lambda>i. f (h i)) is s = foldE f (map h is) s"
  by (induction "is" arbitrary: s) (simp_all split: sum.splits)

lemma rangeEachE_index:
  "rangeEachE 0 (int (length xs) - 1) (\<lambda>i. f (xs ! nat i)) s = foldE f xs s"
  by (simp add: rangeEachE_def foldE_map [of f "\<lambda>i. xs ! nat i"] map_nth_upto)

lemma rangeEachE_fold: "rangeEachE a b f = foldE f [a..b]"
  by (rule ext) (simp add: rangeEachE_def)

lemma fold_frame:
  assumes "\<And>x s. g (f x s) = g s"
  shows "g (fold f xs s) = g s"
  using assms by (induction xs arbitrary: s) simp_all

lemma foldE_rel:
  assumes step: "\<And>x s s'. f x s = Inr s' \<Longrightarrow> R s s'"
    and refl: "\<And>s. R s s"
    and trans: "\<And>a b c. R a b \<Longrightarrow> R b c \<Longrightarrow> R a c"
  shows "foldE f xs s = Inr s' \<Longrightarrow> R s s'"
proof (induction xs arbitrary: s)
  case Nil
  then show ?case by (simp add: refl)
next
  case (Cons x xs)
  then obtain s1 where s1: "f x s = Inr s1" and rest: "foldE f xs s1 = Inr s'"
    by (auto split: sum.splits)
  from step [OF s1] Cons.IH [OF rest] show ?case by (rule trans)
qed

section \<open>Overlay registry\<close>

text \<open>
  The scan of \<^verbatim>\<open>getSettingIndex\<close> never reports a position, so an insertion appends.
\<close>

lemma getSettingIndex_minus_one [simp]: "getSettingIndex cn s = - 1"
  by (simp add: getSettingIndex_def)

lemma insertBorderIntoSettings_push:
  "insertBorderIntoSettings border s =
     s\<lparr>selections := selections s @
          [\<lparr>settings = border, coordinates = (map_of border ''row'', map_of border ''col'')\<rparr>],
       calls := calls s @ [SelectionPush]\<rparr>"
  by (simp add: insertBorderIntoSettings_def)

lemma cellMeta_insertBorderIntoSettings [simp]:
  "cellMeta (insertBorderIntoSettings border s) = cellMeta s"
  by (simp add: insertBorderIntoSettings_push)

lemma frame_insertBorderIntoSettings:
  "nodes (insertBorderIntoSettings b s) = nodes s"
  "savedSettings (insertBorderIntoSettings b s) = savedSettings s"
  by (simp_all add: insertBorderIntoSettings_push)

lemma frame_setCellMeta:
  "nodes (setCellMeta r c b s) = nodes s"
  "savedSettings (setCellMeta r c b s) = savedSettings s"
  by (simp_all add: setCellMeta_def)

section \<open>Expansion of a range entry\<close>

lemma cellMeta_prepareRangeCell:
  "cellMeta (prepareRangeCell rng rowObj r0 c0 s) =
     (if 0 < fst (rangeCellBorder rng rowObj r0 c0)
      then (cellMeta s)((r0, c0) \<mapsto> snd (rangeCellBorder rng rowObj r0 c0))
      else cellMeta s)"
  by (simp add: prepareRangeCell_def setCellMeta_def split: prod.splits)

lemma cellMeta_fold_cols:
  "cellMeta (fold (\<lambda>c. prepareRangeCell rng rowObj r0 c) cs s) (r, c) =
     (if r = r0 \<and> c \<in> set cs \<and> 0 < fst (rangeCellBorder rng rowObj r c)
      then Some (snd (rangeCellBorder rng rowObj r c))
      else cellMeta s (r, c))"
  by (induction cs arbitrary: s) (auto simp: cellMeta_prepareRangeCell)

lemma cellMeta_fold_rows:
  "cellMeta (fold (\<lambda>r0. fold (\<lambda>c. prepareRangeCell rng rowObj r0 c) cs) rs s) (r, c) =
     (if r \<in> set rs \<and> c \<in> set cs \<and> 0 < fst (rangeCellBorder rng rowObj r c)
      then Some (snd (rangeCellBorder rng rowObj r c))
      else cellMeta s (r, c))"
  by (induction rs arbitrary: s) (auto simp: cellMeta_fold_cols)

lemma cellMeta_prepareBorderFromCustomAddedRange:
  "cellMeta (prepareBorderFromCustomAddedRange rng rowObj s) (r, c) =
     (if row (from' rng) \<le> r \<and> r \<le> row (to' rng) \<and>
         col (from' rng) \<le> c \<and> c \<le> col (to' rng) \<and>
         0 < fst (rangeCellBorder rng rowObj r c)
      then Some (snd (rangeCellBorder rng rowObj r c))
      else cellMeta s (r, c))"
  by (simp add: prepareBorderFromCustomAddedRange_def rangeEach_fold cellMeta_fold_rows)

lemma fst_rangeCellBorder:
  "0 < fst (rangeCellBorder rng rowObj r c) \<longleftrightarrow>
     (r = row (from' rng) \<or> r = row (to' rng) \<or> c = col (from' rng) \<or> c = col (to' rng))"
  by (auto simp: rangeCellBorder_def Let_def)

lemma map_of_assignOwn:
  "map_of (assignOwn rowObj side border) k =
     (if k = side then (case map_of rowObj side of None \<Rightarrow> map_of border k | Some v \<Rightarrow> Some v)
      else map_of border k)"
  by (simp add: assignOwn_def hasOwnProperty_def update_conv' split: option.splits)

lemma map_of_createEmptyBorders_sides:
  "map_of (createEmptyBorders r c) ''top'' = Some createSingleEmptyBorder"
  "map_of (createEmptyBorders r c) ''right'' = Some createSingleEmptyBorder"
  "map_of (createEmptyBorders r c) ''bottom'' = Some createSingleEmptyBorder"
  "map_of (createEmptyBorders r c) ''left'' = Some createSingleEmptyBorder"
  "map_of (createEmptyBorders r c) ''className'' = Some (Str (createClassName r c))"
  "map_of (createEmptyBorders r c) ''row'' = Some (Num r)"
  "map_of (createEmptyBorders r c) ''col'' = Some (Num c)"
  by (simp_all add: createEmptyBorders_def)

lemma snd_rangeCellBorder_sides:
  "map_of (snd (rangeCellBorder rng rowObj r c)) ''top'' =
     Some (if r = row (from' rng) then (case map_of rowObj ''top'' of None \<Rightarrow> createSingleEmptyBorder | Some v \<Rightarrow> v) else createSingleEmptyBorder)"
  "map_of (snd (rangeCellBorder rng rowObj r c)) ''bottom'' =
     Some (if r = row (to' rng) then (case map_of rowObj ''bottom'' of None \<Rightarrow> createSingleEmptyBorder | Some v \<Rightarrow> v) else createSingleEmptyBorder)"
  "map_of (snd (rangeCellBorder rng rowObj r c)) ''left'' =
     Some (if c = col (from' rng) then (case map_of rowObj ''left'' of None \<Rightarrow> createSingleEmptyBorder | Some v \<Rightarrow> v) else createSingleEmptyBorder)"
  "map_of (snd (rangeCellBorder rng rowObj r c)) ''right'' =
     Some (if c = col (to' rng) then (case map_of rowObj ''right'' of None \<Rightarrow> createSingleEmptyBorder | Some v \<Rightarrow> v) else createSingleEmptyBorder)"
  by (simp_all add: rangeCellBorder_def Let_def map_of_assignOwn map_of_createEmptyBorders_sides split: option.splits)

lemma calls_prepareRangeCell:
  "calls (prepareRangeCell rng rowObj r0 c0 s) =
     calls s @ (if 0 < fst (rangeCellBorder rng rowObj r0 c0)
                then [SetCellMeta r0 c0, SelectionPush] else [])"
  by (simp add: prepareRangeCell_def setCellMeta_def insertBorderIntoSettings_push
      split: prod.splits)

lemma calls_fold_cols:
  "calls (fold (\<lambda>c. prepareRangeCell rng rowObj r0 c) cs s) =
     calls s @ concat (map (\<lambda>c. if 0 < fst (rangeCellBorder rng rowObj r0 c)
                                  then [SetCellMeta r0 c, SelectionPush] else []) cs)"
  by (induction cs arbitrary: s) (simp_all add: calls_prepareRangeCell)

lemma calls_fold_rows:
  "calls (fold (\<lambda>r0. fold (\<lambda>c. prepareRangeCell rng rowObj r0 c) cs) rs s) =
     calls s @ concat (map (\<lambda>r0. concat (map (\<lambda>c. if 0 < fst (rangeCellBorder rng rowObj r0 c)
                                  then [SetCellMeta r0 c, SelectionPush] else []) cs)) rs)"
  by (induction rs arbitrary: s) (simp_all add: calls_fold_cols)

lemma calls_prepareBorderFromCustomAddedRange:
  "calls (prepareBorderFromCustomAddedRange rng rowObj s) =
     calls s @ concat (map (\<lambda>r0. concat (map (\<lambda>c. if 0 < fst (rangeCellBorder rng rowObj r0 c)
                                  then [SetCellMeta r0 c, SelectionPush] else [])
                              [col (from' rng)..col (to' rng)]))
                          [row (from' rng)..row (to' rng)])"
  by (simp add: prepareBorderFromCustomAddedRange_def rangeEach_fold calls_fold_rows)

lemma unwritten_prepareBorderFromCustomAddedRange:
  assumes "\<not> (row (from' rng) \<le> r \<and> r \<le> row (to' rng) \<and>
      col (from' rng) \<le> c \<and> c \<le> col (to' rng) \<and>
      0 < fst (rangeCellBorder rng rowObj r c))"
  shows "count_list (calls (prepareBorderFromCustomAddedRange rng rowObj s)) (SetCellMeta r c) =
         count_list (calls s) (SetCellMeta r c)"
proof -
  let ?evs = "concat (map (\<lambda>r0. concat (map (\<lambda>c. if 0 < fst (rangeCellBorder rng rowObj r0 c)
                                  then [SetCellMeta r0 c, SelectionPush] else [])
                              [col (from' rng)..col (to' rng)]))
                          [row (from' rng)..row (to' rng)])"
  have "SetCellMeta r c \<notin> set ?evs"
    using assms by (auto split: if_splits)
  then have "count_list ?evs (SetCellMeta r c) = 0"
    by (simp add: count_list_0_iff)
  then show ?thesis
    by (simp add: calls_prepareBorderFromCustomAddedRange)
qed

lemma snd_rangeCellBorder_only_top:
  assumes "map_of rowObj ''top'' = Some v" and "map_of rowObj ''bottom'' = None"
    and "map_of rowObj ''left'' = None" and "map_of rowObj ''right'' = None"
  shows "snd (rangeCellBorder rng rowObj r c) =
           (if r = row (from' rng) then AList.update ''top'' v (createEmptyBorders r c)
            else createEmptyBorders r c)"
  using assms by (simp add: rangeCellBorder_def Let_def assignOwn_def hasOwnProperty_def)

lemma snd_rangeCellBorder_only_bottom:
  assumes "map_of rowObj ''bottom'' = Some v" and "map_of rowObj ''top'' = None"
    and "map_of rowObj ''left'' = None" and "map_of rowObj ''right'' = None"
  shows "snd (rangeCellBorder rng rowObj r c) =
           (if r = row (to' rng) then AList.update ''bottom'' v (createEmptyBorders r c)
            else createEmptyBorders r c)"
  using assms by (simp add: rangeCellBorder_def Let_def assignOwn_def hasOwnProperty_def)

lemma frame_prepareRangeCell:
  "nodes (prepareRangeCell rng rowObj r c s) = nodes s"
  "savedSettings (prepareRangeCell rng rowObj r c s) = savedSettings s"
  by (simp_all add: prepareRangeCell_def frame_insertBorderIntoSettings frame_setCellMeta
      split: prod.splits)

lemma frame_prepareBorderFromCustomAddedRange:
  "nodes (prepareBorderFromCustomAddedRange rng rowObj s) = nodes s"
  "savedSettings (prepareBorderFromCustomAddedRange rng rowObj s) = savedSettings s"
  by (simp_all add: prepareBorderFromCustomAddedRange_def rangeEach_fold
      fold_frame [where g = nodes] fold_frame [where g = savedSettings] frame_prepareRangeCell)

section \<open>Point entries and whole configurations\<close>

lemma map_of_extendDefaultBorder:
  "map_of (extendDefaultBorder border borderObj) k =
     (if k = ''top'' \<or> k = ''right'' \<or> k = ''bottom'' \<or> k = ''left''
      then (case map_of borderObj k of None \<Rightarrow> map_of border k | Some v \<Rightarrow> Some v)
      else map_of border k)"
  by (auto simp: extendDefaultBorder_def map_of_assignOwn split: option.splits)

lemma cellMeta_prepareBorderFromCustomAdded:
  "cellMeta (prepareBorderFromCustomAdded r c borderObj s) =
     (cellMeta s)((r, c) \<mapsto> extendDefaultBorder (createEmptyBorders r c) borderObj)"
  by (simp add: prepareBorderFromCustomAdded_def setCellMeta_def Let_def)

lemma calls_prepareBorderFromCustomAdded:
  "calls (prepareBorderFromCustomAdded r c borderObj s) = calls s @ [SetCellMeta r c, SelectionPush]"
  by (simp add: prepareBorderFromCustomAdded_def setCellMeta_def Let_def
      insertBorderIntoSettings_push)

lemma createCustomBorders_Entries:
  "createCustomBorders (Entries es) s = draw (render (fold createCustomBordersEntry es s))"
  by (simp add: createCustomBorders_def rangeEach_fold fold_index)

lemma createCustomBorders_not_Entries:
  "createCustomBorders (Flag b) s = draw (render s)"
  "createCustomBorders Absent s = draw (render s)"
  by (simp_all add: createCustomBorders_def)

lemma calls_createCustomBordersEntry:
  "\<exists>evs. calls (createCustomBordersEntry e s) = calls s @ evs \<and>
         Render \<notin> set evs \<and> Draw \<notin> set evs"
proof (cases e)
  case (RangeEntry rng rowObj)
  then show ?thesis
    by (auto simp: createCustomBordersEntry_def calls_prepareBorderFromCustomAddedRange
        split: if_splits)
next
  case (PointEntry r c borderObj)
  then show ?thesis
    by (simp add: createCustomBordersEntry_def calls_prepareBorderFromCustomAdded)
qed

lemma calls_fold_createCustomBordersEntry:
  "\<exists>evs. calls (fold createCustomBordersEntry es s) = calls s @ evs \<and>
         Render \<notin> set evs \<and> Draw \<notin> set evs"
proof (induction es arbitrary: s)
  case Nil
  then show ?case by simp
next
  case (Cons e es)
  obtain evs1 where 1: "calls (createCustomBordersEntry e s) = calls s @ evs1"
    "Render \<notin> set evs1" "Draw \<notin> set evs1"
    using calls_createCustomBordersEntry by blast
  obtain evs2 where 2: "calls (fold createCustomBordersEntry es (createCustomBordersEntry e s)) =
       calls (createCustomBordersEntry e s) @ evs2" "Render \<notin> set evs2" "Draw \<notin> set evs2"
    using Cons.IH by blast
  have "calls (fold createCustomBordersEntry (e # es) s) = calls s @ (evs1 @ evs2)"
    by (simp add: 1 2)
  moreover have "Render \<notin> set (evs1 @ evs2)" "Draw \<notin> set (evs1 @ evs2)"
    using 1 2 by simp_all
  ultimately show ?case by blast
qed

lemma calls_createCustomBorders:
  "\<exists>evs. calls (createCustomBorders cb s) = calls s @ evs @ [Render, Draw] \<and>
         Render \<notin> set evs \<and> Draw \<notin> set evs"
proof (cases cb)
  case Absent
  then show ?thesis by (simp add: createCustomBorders_not_Entries render_def draw_def)
next
  case (Flag b)
  then show ?thesis by (simp add: createCustomBorders_not_Entries render_def draw_def)
next
  case (Entries es)
  obtain evs where "calls (fold createCustomBordersEntry es s) = calls s @ evs"
    "Render \<notin> set evs" "Draw \<notin> set evs"
    using calls_fold_createCustomBordersEntry by blast
  then show ?thesis
    by (simp add: Entries createCustomBorders_Entries render_def draw_def)
qed

lemma frame_createCustomBordersEntry:
  "nodes (createCustomBordersEntry e s) = nodes s"
  "savedSettings (createCustomBordersEntry e s) = savedSettings s"
  by (simp_all add: createCustomBordersEntry_def frame_prepareBorderFromCustomAddedRange
      prepareBorderFromCustomAdded_def Let_def frame_insertBorderIntoSettings frame_setCellMeta
      split: borderConfig.splits)

lemma frame_createCustomBorders:
  "nodes (createCustomBorders cb s) = nodes s"
  "savedSettings (createCustomBorders cb s) = savedSettings s"
  by (cases cb; simp add: createCustomBorders_Entries createCustomBorders_not_Entries
      render_def draw_def fold_frame [where g = nodes] fold_frame [where g = savedSettings]
      frame_createCustomBordersEntry)+

lemma nodes_applyBordersSettings: "nodes (applyBordersSettings cb s) = nodes s"
  by (cases cb) (simp_all add: applyBordersSettings_def frame_createCustomBorders Let_def)

lemma rootElement_createCustomBordersEntry:
  "rootElement (createCustomBordersEntry e s) = rootElement s"
  by (simp add: createCustomBordersEntry_def prepareBorderFromCustomAddedRange_def
      rangeEach_fold fold_frame [where g = rootElement] prepareRangeCell_def
      prepareBorderFromCustomAdded_def Let_def insertBorderIntoSettings_push setCellMeta_def
      split: borderConfig.splits prod.splits)

lemma rootElement_createCustomBorders:
  "rootElement (createCustomBorders cb s) = rootElement s"
  by (cases cb; simp add: createCustomBorders_Entries createCustomBorders_not_Entries
      render_def draw_def fold_frame [where g = rootElement]
      rootElement_createCustomBordersEntry)

lemma rootElement_applyBordersSettings:
  "rootElement (applyBordersSettings cb s) = rootElement s"
  by (cases cb) (simp_all add: applyBordersSettings_def rootElement_createCustomBorders Let_def)

lemma cellMeta_entry_map_add:
  "\<exists>W. \<forall>s. cellMeta (createCustomBordersEntry e s) = cellMeta s ++ W"
proof (cases e)
  case (RangeEntry rng rowObj)
  let ?W = "\<lambda>k. if row (from' rng) \<le> fst k \<and> fst k \<le> row (to' rng) \<and>
         col (from' rng) \<le> snd k \<and> snd k \<le> col (to' rng) \<and>
         0 < fst (rangeCellBorder rng rowObj (fst k) (snd k))
      then Some (snd (rangeCellBorder rng rowObj (fst k) (snd k))) else None"
  have "cellMeta (createCustomBordersEntry e s) = cellMeta s ++ ?W" for s
  proof (rule ext)
    fix k :: "int \<times> int"
    obtain r c where k: "k = (r, c)" by (cases k)
    show "cellMeta (createCustomBordersEntry e s) k = (cellMeta s ++ ?W) k"
      by (simp add: k RangeEntry createCustomBordersEntry_def
          cellMeta_prepareBorderFromCustomAddedRange map_add_def)
  qed
  then show ?thesis by blast
next
  case (PointEntry r c borderObj)
  have "cellMeta (createCustomBordersEntry e s) =
          cellMeta s ++ [(r, c) \<mapsto> extendDefaultBorder (createEmptyBorders r c) borderObj]" for s
    by (simp add: PointEntry createCustomBordersEntry_def cellMeta_prepareBorderFromCustomAdded)
  then show ?thesis by blast
qed

lemma cellMeta_fold_map_add:
  "\<exists>W. \<forall>s. cellMeta (fold createCustomBordersEntry es s) = cellMeta s ++ W"
proof (induction es)
  case Nil
  have "\<forall>s. cellMeta (fold createCustomBordersEntry [] s) = cellMeta s ++ Map.empty" by simp
  then show ?case by blast
next
  case (Cons e es)
  obtain W1 where 1: "\<And>s. cellMeta (createCustomBordersEntry e s) = cellMeta s ++ W1"
    using cellMeta_entry_map_add by blast
  obtain W2 where 2: "\<And>s. cellMeta (fold createCustomBordersEntry es s) = cellMeta s ++ W2"
    using Cons.IH by blast
  have "\<forall>s. cellMeta (fold createCustomBordersEntry (e # es) s) = cellMeta s ++ (W1 ++ W2)"
    by (simp add: 1 2)
  then show ?case by blast
qed

lemma cellMeta_createCustomBorders_Entries:
  "cellMeta (createCustomBorders (Entries es) s) = cellMeta s ++ appliedDescriptors es"
proof -
  obtain W where W: "\<And>s. cellMeta (fold createCustomBordersEntry es s) = cellMeta s ++ W"
    using cellMeta_fold_map_add by blast
  have c: "cellMeta (createCustomBorders (Entries es) s) = cellMeta s ++ W" for s
    by (simp add: createCustomBorders_Entries render_def draw_def W)
  have "appliedDescriptors es = W"
    by (simp add: appliedDescriptors_def c emptyHot_def)
  then show ?thesis by (simp add: c)
qed

section \<open>The purge touches the rendered tree only\<close>

lemma removeBorderNode_only_nodes:
  "removeBorderNode n s = Inr s' \<Longrightarrow> s' = s\<lparr>nodes := nodes s'\<rparr>"
  by (auto simp: removeBorderNode_def Let_def split: if_splits option.splits)

lemma only_nodes_trans:
  fixes a b c :: hot
  assumes "b = a\<lparr>nodes := nodes b\<rparr>" and "c = b\<lparr>nodes := nodes c\<rparr>"
  shows "c = a\<lparr>nodes := nodes c\<rparr>"
proof -
  have "c = (a\<lparr>nodes := nodes b\<rparr>)\<lparr>nodes := nodes c\<rparr>"
    using assms by simp
  then show ?thesis by simp
qed

lemma removeBordersFromDom_only_nodes:
  assumes "removeBordersFromDom cls s = Inr s'"
  shows "s' = s\<lparr>nodes := nodes s'\<rparr>"
proof -
  from assms have "foldE removeBorderNode (querySelectorAll (ClassSelector cls) s) s = Inr s'"
    by (simp add: removeBordersFromDom_def Let_def rangeEachE_index)
  then show ?thesis
  proof (rule foldE_rel [where R = "\<lambda>a b. b = a\<lparr>nodes := nodes b\<rparr>", rotated 3])
    fix x a b assume "removeBorderNode x a = Inr b"
    then show "b = a\<lparr>nodes := nodes b\<rparr>" by (rule removeBorderNode_only_nodes)
  next
    fix a :: hot show "a = a\<lparr>nodes := nodes a\<rparr>" by simp
  next
    fix a b c :: hot assume "b = a\<lparr>nodes := nodes b\<rparr>" "c = b\<lparr>nodes := nodes c\<rparr>"
    then show "c = a\<lparr>nodes := nodes c\<rparr>"
      by (metis hot.update_convs(5) hot.surjective hot.simps)
  qed
qed

lemma purgeBorderNodes_only_nodes:
  assumes "purgeBorderNodes s = Inr s'"
  shows "s' = s\<lparr>nodes := nodes s'\<rparr>"
proof -
  let ?tds = "querySelectorAll (TdClassPrefix ''border'') s"
  from assms have
    "foldE (\<lambda>n st. removeBordersFromDom (className (nodes st ! n)) st) ?tds s = Inr s'"
    by (simp add: purgeBorderNodes_def Let_def
        rangeEachE_index [of ?tds "\<lambda>n st. removeBordersFromDom (className (nodes st ! n)) st"])
  then show ?thesis
  proof (rule foldE_rel [where R = "\<lambda>a b. b = a\<lparr>nodes := nodes b\<rparr>", rotated 3])
    fix x a b assume "removeBordersFromDom (className (nodes a ! x)) a = Inr b"
    then show "b = a\<lparr>nodes := nodes b\<rparr>" by (rule removeBordersFromDom_only_nodes)
  next
    fix a :: hot show "a = a\<lparr>nodes := nodes a\<rparr>" by simp
  next
    fix a b c :: hot assume "b = a\<lparr>nodes := nodes b\<rparr>" "c = b\<lparr>nodes := nodes c\<rparr>"
    then show "c = a\<lparr>nodes := nodes c\<rparr>" by (rule only_nodes_trans)
  qed
qed

lemma only_nodes_fields:
  assumes "s' = s\<lparr>nodes := nodes s'\<rparr>"
  shows "cellMeta s' = cellMeta s" and "selections s' = selections s"
    and "calls s' = calls s" and "savedSettings s' = savedSettings s"
    and "customBorders s' = customBorders s" and "rootElement s' = rootElement s"
proof -
  show "cellMeta s' = cellMeta s" by (subst assms) simp
  show "selections s' = selections s" by (subst assms) simp
  show "calls s' = calls s" by (subst assms) simp
  show "savedSettings s' = savedSettings s" by (subst assms) simp
  show "customBorders s' = customBorders s" by (subst assms) simp
  show "rootElement s' = rootElement s" by (subst assms) simp
qed

section \<open>What the purge removes\<close>

lemma linkCleared_refl: "linkCleared a a"
  by (simp add: linkCleared_def)

lemma linkCleared_trans: "linkCleared a b \<Longrightarrow> linkCleared b c \<Longrightarrow> linkCleared a c"
  by (auto simp: linkCleared_def split: if_splits)

lemma nodes_linkCleared_refl: "list_all2 linkCleared ns ns"
  by (simp add: list_all2_refl linkCleared_refl)

lemma nodes_linkCleared_trans:
  "list_all2 linkCleared a b \<Longrightarrow> list_all2 linkCleared b c \<Longrightarrow> list_all2 linkCleared a c"
  using list_all2_trans [of linkCleared linkCleared linkCleared a b c] linkCleared_trans
  by blast

lemma removeBorderNode_linkCleared:
  assumes "removeBorderNode n s = Inr s'"
  shows "list_all2 linkCleared (nodes s) (nodes s')"
proof -
  have upd: "list_all2 linkCleared (nodes s)
      ((nodes s)[p := (nodes s ! p)\<lparr>parentNode := None\<rparr>])" for p
  proof -
    have "list_all2 linkCleared ((nodes s)[p := nodes s ! p])
      ((nodes s)[p := (nodes s ! p)\<lparr>parentNode := None\<rparr>])"
      by (rule list_all2_update_cong) (simp_all add: nodes_linkCleared_refl linkCleared_def)
    then show ?thesis by simp
  qed
  from assms show ?thesis
    by (auto simp: removeBorderNode_def Let_def nodes_linkCleared_refl upd
        split: if_splits option.splits)
qed

lemma removeBorderNode_detaches:
  assumes "removeBorderNode n s = Inr s'"
    and "nodeName (nodes s ! n) \<noteq> ''TD''"
  shows "\<exists>p. parentNode (nodes s ! n) = Some p \<and>
             (p < length (nodes s) \<longrightarrow> parentNode (nodes s' ! p) = None)"
  using assms
  by (auto simp: removeBorderNode_def Let_def split: if_splits option.splits)

lemma foldE_removeBorderNode:
  "foldE removeBorderNode xs s = Inr s' \<Longrightarrow> list_all2 linkCleared ns0 (nodes s) \<Longrightarrow>
   list_all2 linkCleared ns0 (nodes s') \<and>
   (\<forall>n p. n \<in> set xs \<and> n < length ns0 \<and> nodeName (ns0 ! n) \<noteq> ''TD'' \<and>
          parentNode (ns0 ! n) = Some p \<and> p < length ns0 \<longrightarrow>
          parentNode (nodes s' ! p) = None)"
proof (induction xs arbitrary: s ns0)
  case Nil
  then show ?case by simp
next
  case (Cons x xs)
  from Cons.prems(1) obtain s1 where s1: "removeBorderNode x s = Inr s1"
    and rest: "foldE removeBorderNode xs s1 = Inr s'"
    by (auto split: sum.splits)
  have r01: "list_all2 linkCleared ns0 (nodes s1)"
    by (rule nodes_linkCleared_trans [OF Cons.prems(2) removeBorderNode_linkCleared [OF s1]])
  from Cons.IH [OF rest r01] have
    r0': "list_all2 linkCleared ns0 (nodes s')" and
    tail: "\<forall>n p. n \<in> set xs \<and> n < length ns0 \<and> nodeName (ns0 ! n) \<noteq> ''TD'' \<and>
          parentNode (ns0 ! n) = Some p \<and> p < length ns0 \<longrightarrow>
          parentNode (nodes s' ! p) = None"
    by blast+
  from Cons.IH [OF rest nodes_linkCleared_refl] have
    r1': "list_all2 linkCleared (nodes s1) (nodes s')" by simp
  have len: "length (nodes s) = length ns0" "length (nodes s1) = length ns0"
    using list_all2_lengthD [OF Cons.prems(2)] list_all2_lengthD [OF r01] by simp_all
  have head: "parentNode (nodes s' ! p) = None"
    if "x < length ns0" "nodeName (ns0 ! x) \<noteq> ''TD''"
      "parentNode (ns0 ! x) = Some p" "p < length ns0" for p
  proof -
    have lx: "linkCleared (ns0 ! x) (nodes s ! x)"
      using Cons.prems(2) that(1) by (simp add: list_all2_nthD)
    then have "nodeName (nodes s ! x) \<noteq> ''TD''"
      using that(2) by (simp add: linkCleared_def)
    from removeBorderNode_detaches [OF s1 this] obtain q where
      q: "parentNode (nodes s ! x) = Some q"
        "q < length (nodes s) \<longrightarrow> parentNode (nodes s1 ! q) = None"
      by blast
    from lx q(1) that(3) have "q = p" by (simp add: linkCleared_def)
    with q(2) that(4) len have "parentNode (nodes s1 ! p) = None" by simp
    moreover have "linkCleared (nodes s1 ! p) (nodes s' ! p)"
      using r1' that(4) len by (simp add: list_all2_nthD)
    ultimately show ?thesis by (auto simp: linkCleared_def split: if_splits)
  qed
  show ?case using r0' tail head by auto
qed

lemma descendsFrom_linkCleared:
  "list_all2 linkCleared ns0 ns \<Longrightarrow> descendsFrom ns root fuel n \<Longrightarrow>
   descendsFrom ns0 root fuel n"
proof (induction fuel arbitrary: n)
  case 0
  then show ?case by simp
next
  case (Suc fuel)
  from Suc.prems(2) have n: "n < length ns" by (simp split: if_splits)
  then have l: "linkCleared (ns0 ! n) (ns ! n)"
    using Suc.prems(1) by (simp add: list_all2_nthD2)
  have len: "length ns0 = length ns" using Suc.prems(1) by (rule list_all2_lengthD)
  from Suc.prems(2) n obtain p where p: "parentNode (ns ! n) = Some p"
    and d: "p = root \<or> descendsFrom ns root fuel p"
    by (auto split: option.splits if_splits)
  from l p have "parentNode (ns0 ! n) = Some p" by (simp add: linkCleared_def)
  moreover from d Suc.IH [OF Suc.prems(1)] have "p = root \<or> descendsFrom ns0 root fuel p"
    by blast
  ultimately show ?case using n len by auto
qed

lemma descendsFrom_has_parent:
  "descendsFrom ns root fuel n \<Longrightarrow> n < length ns \<and> parentNode (ns ! n) \<noteq> None"
  by (cases fuel) (auto split: if_splits option.splits)

lemma removeBordersFromDom_removes:
  assumes run: "removeBordersFromDom cls s = Inr s'"
    and n: "n \<in> set (querySelectorAll (ClassSelector cls) s')"
  shows "nodeName (nodes s' ! n) = ''TD'' \<or> parentNode (nodes s' ! n) = Some (rootElement s')"
proof (rule disjCI)
  assume notroot: "parentNode (nodes s' ! n) \<noteq> Some (rootElement s')"
  let ?xs = "querySelectorAll (ClassSelector cls) s"
  from run have fold: "foldE removeBorderNode ?xs s = Inr s'"
    by (simp add: removeBordersFromDom_def Let_def rangeEachE_index)
  from foldE_removeBorderNode [OF fold nodes_linkCleared_refl] have
    rel: "list_all2 linkCleared (nodes s) (nodes s')" and
    det: "\<And>m p. m \<in> set ?xs \<Longrightarrow> m < length (nodes s) \<Longrightarrow> nodeName (nodes s ! m) \<noteq> ''TD'' \<Longrightarrow>
          parentNode (nodes s ! m) = Some p \<Longrightarrow> p < length (nodes s) \<Longrightarrow>
          parentNode (nodes s' ! p) = None"
    by blast+
  have len: "length (nodes s') = length (nodes s)"
    using rel by (simp add: list_all2_lengthD)
  have root: "rootElement s' = rootElement s"
    by (rule only_nodes_fields(6) [OF removeBordersFromDom_only_nodes [OF run]])
  from n have nlt: "n < length (nodes s')"
    and m': "List.member (classList (nodes s' ! n)) cls"
    and d': "descendsFrom (nodes s') (rootElement s') (length (nodes s')) n"
    by (auto simp: querySelectorAll_def split: if_splits)
  have l: "linkCleared (nodes s ! n) (nodes s' ! n)"
    using rel nlt by (simp add: list_all2_nthD2)
  have d: "descendsFrom (nodes s) (rootElement s) (length (nodes s)) n"
    using descendsFrom_linkCleared [OF rel d'] by (simp add: root len)
  have inq: "n \<in> set ?xs"
    using nlt len m' l d by (simp add: querySelectorAll_def linkCleared_def)
  obtain fuel where fuel: "length (nodes s') = Suc fuel"
    using nlt by (cases "length (nodes s')") auto
  from d' fuel nlt obtain p where p: "parentNode (nodes s' ! n) = Some p"
    and dp: "p = rootElement s' \<or> descendsFrom (nodes s') (rootElement s') fuel p"
    by (auto split: option.splits if_splits)
  from p notroot dp have dp': "descendsFrom (nodes s') (rootElement s') fuel p" by auto
  from descendsFrom_has_parent [OF dp'] have plt: "p < length (nodes s')"
    and pp: "parentNode (nodes s' ! p) \<noteq> None" by simp_all
  from l p have p0: "parentNode (nodes s ! n) = Some p" by (simp add: linkCleared_def)
  show "nodeName (nodes s' ! n) = ''TD''"
  proof (rule ccontr)
    assume "nodeName (nodes s' ! n) \<noteq> ''TD''"
    with l have "nodeName (nodes s ! n) \<noteq> ''TD''" by (simp add: linkCleared_def)
    from det [OF inq _ this p0] nlt plt len have "parentNode (nodes s' ! p) = None" by simp
    with pp show False by simp
  qed
qed

section \<open>Menu actions\<close>

lemma removeAllBorders_result:
  assumes "removeAllBorders r c s = Inr s'"
  shows "cellMeta s' = (cellMeta s)((r, c) := None)"
    and "selections s' = selections s"
    and "calls s' = calls s @ [RemoveCellMeta r c]"
    and "savedSettings s' = savedSettings s"
proof -
  from assms obtain s1 where dom: "removeBordersFromDom (createClassName r c) s = Inr s1"
    and s': "s' = removeCellMeta r c s1"
    by (auto simp: removeAllBorders_def Let_def split: sum.splits)
  note f = only_nodes_fields [OF removeBordersFromDom_only_nodes [OF dom]]
  show "cellMeta s' = (cellMeta s)((r, c) := None)" by (simp add: s' removeCellMeta_def f)
  show "selections s' = selections s" by (simp add: s' removeCellMeta_def f)
  show "calls s' = calls s @ [RemoveCellMeta r c]" by (simp add: s' removeCellMeta_def f)
  show "savedSettings s' = savedSettings s" by (simp add: s' removeCellMeta_def f)
qed

lemma setBorder_result:
  assumes "setBorder r c place remove s = Inr s'"
  shows "\<exists>base. cellMeta s' = (cellMeta s)((r, c) \<mapsto>
            AList.update place (if remove then createSingleEmptyBorder
                                else createDefaultCustomBorder) base)"
    and "length (selections s') = Suc (length (selections s))"
    and "calls s' = calls s @ [SetCellMeta r c, SelectionPush, Render]"
    and "savedSettings s' = savedSettings s"
proof -
  define base where "base =
            (case cellMeta s (r, c) of
               None \<Rightarrow> createEmptyBorders r c
             | Some b \<Rightarrow>
                 (case map_of b ''border'' of
                    None \<Rightarrow> createEmptyBorders r c
                  | Some v \<Rightarrow> b))"
  define upd where "upd = AList.update place (if remove then createSingleEmptyBorder
                                else createDefaultCustomBorder) base"
  from assms obtain s2 where
    dom: "removeBordersFromDom (createClassName r c) (setCellMeta r c upd s) = Inr s2"
    and s': "s' = render (insertBorderIntoSettings upd s2)"
    by (auto simp: setBorder_def Let_def base_def upd_def split: sum.splits if_splits)
  note f = only_nodes_fields [OF removeBordersFromDom_only_nodes [OF dom]]
  have "cellMeta s' = (cellMeta s)((r, c) \<mapsto> upd)"
    by (simp add: s' render_def f setCellMeta_def)
  then show "\<exists>base. cellMeta s' = (cellMeta s)((r, c) \<mapsto>
            AList.update place (if remove then createSingleEmptyBorder
                                else createDefaultCustomBorder) base)"
    unfolding upd_def by blast
  show "length (selections s') = Suc (length (selections s))"
    by (simp add: s' render_def insertBorderIntoSettings_push f setCellMeta_def)
  show "calls s' = calls s @ [SetCellMeta r c, SelectionPush, Render]"
    by (simp add: s' render_def insertBorderIntoSettings_push f setCellMeta_def)
  show "savedSettings s' = savedSettings s"
    by (simp add: s' render_def insertBorderIntoSettings_push f setCellMeta_def)
qed

lemma foldE_setBorder_calls:
  "foldE (\<lambda>x. setBorder (rf x) (cf x) place remove) xs s = Inr s' \<Longrightarrow>
   calls s' = calls s @ concat (map (\<lambda>x. [SetCellMeta (rf x) (cf x), SelectionPush, Render]) xs)"
proof (induction xs arbitrary: s)
  case Nil
  then show ?case by simp
next
  case (Cons x xs)
  then obtain s1 where s1: "setBorder (rf x) (cf x) place remove s = Inr s1"
    and rest: "foldE (\<lambda>x. setBorder (rf x) (cf x) place remove) xs s1 = Inr s'"
    by (auto split: sum.splits)
  show ?case
    using Cons.IH [OF rest] setBorder_result(3) [OF s1] by simp
qed

lemma setBorder_keeps_side:
  assumes "setBorder r c place remove s = Inr s'"
    and "\<exists>d. cellMeta s k = Some d \<and>
           map_of d place = Some (if remove then createSingleEmptyBorder
                                  else createDefaultCustomBorder)"
  shows "\<exists>d. cellMeta s' k = Some d \<and>
           map_of d place = Some (if remove then createSingleEmptyBorder
                                  else createDefaultCustomBorder)"
proof -
  from setBorder_result(1) [OF assms(1)] obtain base where
    m: "cellMeta s' = (cellMeta s)((r, c) \<mapsto>
            AList.update place (if remove then createSingleEmptyBorder
                                else createDefaultCustomBorder) base)" ..
  show ?thesis
  proof (cases "k = (r, c)")
    case True
    then show ?thesis by (simp add: m update_conv')
  next
    case False
    then show ?thesis using assms(2) by (simp add: m)
  qed
qed

lemma setBorder_sets_side:
  assumes "setBorder r c place remove s = Inr s'"
  shows "\<exists>d. cellMeta s' (r, c) = Some d \<and>
           map_of d place = Some (if remove then createSingleEmptyBorder
                                  else createDefaultCustomBorder)"
proof -
  from setBorder_result(1) [OF assms(1)] obtain base where
    m: "cellMeta s' = (cellMeta s)((r, c) \<mapsto>
            AList.update place (if remove then createSingleEmptyBorder
                                else createDefaultCustomBorder) base)" ..
  show ?thesis by (simp add: m update_conv')
qed

lemma foldE_setBorder_keeps_side:
  "foldE (\<lambda>x. setBorder (rf x) (cf x) place remove) xs s = Inr s' \<Longrightarrow>
   \<exists>d. cellMeta s k = Some d \<and>
        map_of d place = Some (if remove then createSingleEmptyBorder
                               else createDefaultCustomBorder) \<Longrightarrow>
   \<exists>d. cellMeta s' k = Some d \<and>
        map_of d place = Some (if remove then createSingleEmptyBorder
                               else createDefaultCustomBorder)"
proof (induction xs arbitrary: s)
  case Nil
  then show ?case by simp
next
  case (Cons x xs)
  from Cons.prems(1) obtain s1 where s1: "setBorder (rf x) (cf x) place remove s = Inr s1"
    and rest: "foldE (\<lambda>x. setBorder (rf x) (cf x) place remove) xs s1 = Inr s'"
    by (auto split: sum.splits)
  show ?case
    by (rule Cons.IH [OF rest setBorder_keeps_side [OF s1 Cons.prems(2)]])
qed

lemma foldE_setBorder_sets_side:
  "foldE (\<lambda>x. setBorder (rf x) (cf x) place remove) xs s = Inr s' \<Longrightarrow> x0 \<in> set xs \<Longrightarrow>
   \<exists>d. cellMeta s' (rf x0, cf x0) = Some d \<and>
        map_of d place = Some (if remove then createSingleEmptyBorder
                               else createDefaultCustomBorder)"
proof (induction xs arbitrary: s)
  case Nil
  then show ?case by simp
next
  case (Cons x xs)
  from Cons.prems(1) obtain s1 where s1: "setBorder (rf x) (cf x) place remove s = Inr s1"
    and rest: "foldE (\<lambda>x. setBorder (rf x) (cf x) place remove) xs s1 = Inr s'"
    by (auto split: sum.splits)
  show ?case
  proof (cases "x0 = x")
    case True
    show ?thesis
      unfolding True
      by (rule foldE_setBorder_keeps_side [OF rest setBorder_sets_side [OF s1]])
  next
    case False
    with Cons.prems(2) have "x0 \<in> set xs" by simp
    then show ?thesis by (rule Cons.IH [OF rest])
  qed
qed

lemma prepareBorder_unknown_place_multi_cell:
  assumes "\<not> (row (from' rng) = row (to' rng) \<and> col (from' rng) = col (to' rng))"
    and "place \<noteq> ''noBorders''" and "place \<noteq> ''top''" and "place \<noteq> ''right''"
    and "place \<noteq> ''bottom''" and "place \<noteq> ''left''"
  shows "prepareBorder rng place remove s = Inr s"
  using assms by (auto simp: prepareBorder_def)

section \<open>No exception on a well-formed tree\<close>

text \<open>
  The one exception of the model is the read of \<^verbatim>\<open>parent.parentNode\<close> for a node of the
  query result whose own parent link was cleared before its turn, which takes a child of
  it earlier in the result. In document order a parent stands before its children: on
  such a tree the purge, the menu actions and the settings reconciliation all return.
\<close>

lemma wellFormedTree_parent:
  "wellFormedTree ns \<Longrightarrow> i < length ns \<Longrightarrow> parentNode (ns ! i) = Some p \<Longrightarrow> p < i"
  by (auto simp: wellFormedTree_def list_all_iff split: option.splits)

text \<open>
  On such a tree the walk to the root takes fewer steps than there are nodes: the fuel
  of a query never runs out.
\<close>

lemma descendsFrom_fuel:
  "wellFormedTree ns \<Longrightarrow> i < f \<Longrightarrow> i < g \<Longrightarrow>
   descendsFrom ns root f i = descendsFrom ns root g i"
proof (induction f arbitrary: g i)
  case 0
  then show ?case by simp
next
  case (Suc f)
  from Suc.prems(3) obtain g' where g: "g = Suc g'" by (cases g) auto
  show ?case
  proof (cases "i < length ns")
    case False
    then show ?thesis by (simp add: g)
  next
    case True
    show ?thesis
    proof (cases "parentNode (ns ! i)")
      case None
      then show ?thesis using True by (simp add: g)
    next
      case (Some p)
      from wellFormedTree_parent [OF Suc.prems(1) True Some] have "p < i" .
      with Suc.prems(2,3) g have "p < f" "p < g'" by simp_all
      from Suc.IH [OF Suc.prems(1) this]
      show ?thesis using True Some by (simp add: g)
    qed
  qed
qed

lemma descendsFrom_enough_fuel:
  assumes "wellFormedTree ns" and "i < length ns"
  shows "descendsFrom ns root (length ns) i = descendsFrom ns root (length ns + k) i"
  using descendsFrom_fuel [OF assms(1), of i "length ns" "length ns + k" root] assms(2)
  by simp

lemma wellFormedTree_linkCleared:
  assumes "list_all2 linkCleared ns ns'" and "wellFormedTree ns"
  shows "wellFormedTree ns'"
proof -
  have len: "length ns = length ns'" using assms(1) by (rule list_all2_lengthD)
  have "p < i" if "i < length ns'" "parentNode (ns' ! i) = Some p" for i p
  proof -
    from assms(1) that(1) have "linkCleared (ns ! i) (ns' ! i)" by (simp add: list_all2_nthD2)
    with that(2) have "parentNode (ns ! i) = Some p" by (simp add: linkCleared_def)
    with assms(2) that(1) len show ?thesis by (simp add: wellFormedTree_parent)
  qed
  then show ?thesis
    by (auto simp: wellFormedTree_def list_all_iff split: option.splits)
qed

lemma querySelectorAll_has_parent:
  "n \<in> set (querySelectorAll sel s) \<Longrightarrow>
   n < length (nodes s) \<and> parentNode (nodes s ! n) \<noteq> None"
  by (auto simp: querySelectorAll_def dest: descendsFrom_has_parent split: if_splits)

lemma foldE_removeBorderNode_returns:
  assumes "sorted_wrt (<) xs"
    and "\<forall>x \<in> set xs. b \<le> x \<and> x < length (nodes s) \<and> parentNode (nodes s ! x) \<noteq> None"
    and "wellFormedTree (nodes s)"
  shows "\<exists>s'. foldE removeBorderNode xs s = Inr s'"
  using assms
proof (induction xs arbitrary: s b)
  case Nil
  then show ?case by simp
next
  case (Cons x xs)
  from Cons.prems(2) obtain p where x: "x < length (nodes s)"
    and p: "parentNode (nodes s ! x) = Some p"
    by auto
  from wellFormedTree_parent [OF Cons.prems(3) x p] have px: "p < x" .
  have "\<exists>s1. removeBorderNode x s = Inr s1"
    using p by (simp add: removeBorderNode_def Let_def split: option.splits)
  then obtain s1 where s1: "removeBorderNode x s = Inr s1" ..
  have same: "nodes s1 ! i = nodes s ! i" if "x < i" for i
    using s1 p px that
    by (auto simp: removeBorderNode_def Let_def split: option.splits if_splits)
  have len: "length (nodes s1) = length (nodes s)"
    using list_all2_lengthD [OF removeBorderNode_linkCleared [OF s1]] by simp
  have wf1: "wellFormedTree (nodes s1)"
    by (rule wellFormedTree_linkCleared [OF removeBorderNode_linkCleared [OF s1] Cons.prems(3)])
  have "\<forall>y \<in> set xs. Suc x \<le> y \<and> y < length (nodes s1) \<and> parentNode (nodes s1 ! y) \<noteq> None"
    using Cons.prems(1,2) same len by auto
  moreover have "sorted_wrt (<) xs" using Cons.prems(1) by simp
  ultimately obtain s' where "foldE removeBorderNode xs s1 = Inr s'"
    using Cons.IH [OF _ _ wf1] by blast
  then show ?case by (simp add: s1)
qed

lemma removeBordersFromDom_returns:
  assumes "wellFormedTree (nodes s)"
  shows "\<exists>s'. removeBordersFromDom cls s = Inr s' \<and> wellFormedTree (nodes s')"
proof -
  let ?xs = "querySelectorAll (ClassSelector cls) s"
  have "sorted_wrt (<) ?xs"
    by (simp add: querySelectorAll_def sorted_wrt_filter)
  moreover have "\<forall>x \<in> set ?xs. 0 \<le> x \<and> x < length (nodes s) \<and> parentNode (nodes s ! x) \<noteq> None"
    using querySelectorAll_has_parent by blast
  ultimately obtain s' where s': "foldE removeBorderNode ?xs s = Inr s'"
    using foldE_removeBorderNode_returns [OF _ _ assms] by blast
  then have run: "removeBordersFromDom cls s = Inr s'"
    by (simp add: removeBordersFromDom_def Let_def rangeEachE_index)
  from foldE_removeBorderNode [OF s' nodes_linkCleared_refl]
  have "list_all2 linkCleared (nodes s) (nodes s')" by simp
  then have "wellFormedTree (nodes s')" using assms by (rule wellFormedTree_linkCleared)
  with run show ?thesis by simp
qed

lemma foldE_returns:
  assumes step: "\<And>x s. I s \<Longrightarrow> \<exists>s'. f x s = Inr s' \<and> I s'"
  shows "I s \<Longrightarrow> \<exists>s'. foldE f xs s = Inr s' \<and> I s'"
proof (induction xs arbitrary: s)
  case Nil
  then show ?case by simp
next
  case (Cons x xs)
  from step [OF Cons.prems] obtain s1 where "f x s = Inr s1" "I s1" by blast
  with Cons.IH [of s1] show ?case by simp
qed

lemma purgeBorderNodes_returns:
  assumes "wellFormedTree (nodes s)"
  shows "\<exists>s'. purgeBorderNodes s = Inr s' \<and> wellFormedTree (nodes s')"
proof -
  let ?tds = "querySelectorAll (TdClassPrefix ''border'') s"
  have "\<exists>s'. foldE (\<lambda>n st. removeBordersFromDom (className (nodes st ! n)) st) ?tds s = Inr s' \<and>
          wellFormedTree (nodes s')"
    using assms
    by (rule foldE_returns [where I = "\<lambda>st. wellFormedTree (nodes st)", rotated])
      (rule removeBordersFromDom_returns)
  then show ?thesis
    by (simp add: purgeBorderNodes_def Let_def
        rangeEachE_index [of ?tds "\<lambda>n st. removeBordersFromDom (className (nodes st ! n)) st"])
qed

lemma setsBordersSettings_returns:
  assumes "wellFormedTree (nodes s)"
  shows "\<exists>s'. setsBordersSettings s = Inr s'"
  using purgeBorderNodes_returns [OF assms]
  by (auto simp: setsBordersSettings_def Let_def)

lemma removeAllBorders_returns:
  assumes "wellFormedTree (nodes s)"
  shows "\<exists>s'. removeAllBorders r c s = Inr s' \<and> wellFormedTree (nodes s')"
  using removeBordersFromDom_returns [OF assms, of "createClassName r c"]
  by (auto simp: removeAllBorders_def Let_def removeCellMeta_def)

lemma setBorder_returns:
  assumes "wellFormedTree (nodes s)"
  shows "\<exists>s'. setBorder r c place remove s = Inr s' \<and> wellFormedTree (nodes s')"
proof -
  define b where "b =
     (let bordersMeta =
            (case cellMeta s (r, c) of
               None \<Rightarrow> createEmptyBorders r c
             | Some b \<Rightarrow>
                 (case map_of b ''border'' of
                    None \<Rightarrow> createEmptyBorders r c
                  | Some v \<Rightarrow> b))
      in if remove then AList.update place createSingleEmptyBorder bordersMeta
         else AList.update place createDefaultCustomBorder bordersMeta)"
  have "wellFormedTree (nodes (setCellMeta r c b s))"
    by (simp add: setCellMeta_def assms)
  from removeBordersFromDom_returns [OF this] obtain s2 where
    s2: "removeBordersFromDom (createClassName r c) (setCellMeta r c b s) = Inr s2"
    and wf: "wellFormedTree (nodes s2)"
    by blast
  have "setBorder r c place remove s = Inr (render (insertBorderIntoSettings b s2))"
    using s2 by (simp add: setBorder_def Let_def b_def)
  moreover have "wellFormedTree (nodes (render (insertBorderIntoSettings b s2)))"
    using wf by (simp add: render_def insertBorderIntoSettings_push)
  ultimately show ?thesis by blast
qed

lemma prepareBorder_returns:
  assumes "wellFormedTree (nodes s)"
  shows "\<exists>s'. prepareBorder rng place remove s = Inr s'"
proof -
  note loop = foldE_returns [where I = "\<lambda>st. wellFormedTree (nodes st)", OF _ assms]
  have sb: "\<exists>s'. foldE (\<lambda>x. setBorder (rf x) (cf x) pl rm) xs s = Inr s' \<and>
      wellFormedTree (nodes s')" for rf cf :: "int \<Rightarrow> int" and pl rm xs
    by (rule loop) (rule setBorder_returns)
  have inner: "\<exists>s'. foldE (\<lambda>rowIndex. removeAllBorders rowIndex colIndex) xs st = Inr s' \<and>
      wellFormedTree (nodes s')" if "wellFormedTree (nodes st)" for colIndex xs st
    using that
    by (rule foldE_returns [where I = "\<lambda>st. wellFormedTree (nodes st)", rotated])
      (rule removeAllBorders_returns)
  have nb: "\<exists>s'. foldE (\<lambda>colIndex. foldE (\<lambda>rowIndex. removeAllBorders rowIndex colIndex) ys) xs s
      = Inr s' \<and> wellFormedTree (nodes s')" for xs ys
    by (rule loop) (rule inner)
  have one: "\<exists>s'. setBorder r c pl rm s = Inr s'" for r c pl rm
    using setBorder_returns [OF assms] by blast
  have clear: "\<exists>s'. removeAllBorders r c s = Inr s'" for r c
    using removeAllBorders_returns [OF assms] by blast
  have top: "\<exists>s'. foldE (\<lambda>x. setBorder r0 x pl rm) xs s = Inr s'" for r0 pl rm xs
    using sb [of "\<lambda>x. r0" "\<lambda>x. x"] by blast
  have side: "\<exists>s'. foldE (\<lambda>x. setBorder x c0 pl rm) xs s = Inr s'" for c0 pl rm xs
    using sb [of "\<lambda>x. x" "\<lambda>x. c0"] by blast
  have all: "\<exists>s'. foldE (\<lambda>colIndex. foldE (\<lambda>rowIndex. removeAllBorders rowIndex colIndex) ys) xs s
      = Inr s'" for xs ys
    using nb by blast
  show ?thesis
    by (simp add: prepareBorder_def rangeEachE_fold one clear top side all)
qed

section \<open>Evaluation on the example states\<close>

lemmas action_eval = prepareBorder_def rangeEachE_def setBorder_def removeBordersFromDom_def
  querySelectorAll_def removeBorderNode_def setCellMeta_def render_def
  insertBorderIntoSettings_push removeAllBorders_def removeCellMeta_def
  Let_def upto.simps createEmptyBorders_def createClassName_def showInt_def
  showNat.simps createSingleEmptyBorder_def createDefaultCustomBorder_def

lemmas dom_eval = action_eval renderedHot_def borderNodes_def eval_nat_numeral

lemma querySelectorAll_cong:
  "nodes s' = nodes s \<Longrightarrow> rootElement s' = rootElement s \<Longrightarrow>
   querySelectorAll sel s' = querySelectorAll sel s"
  by (simp add: querySelectorAll_def)

lemma setsBordersSettings_no_border_cells:
  assumes "querySelectorAll (TdClassPrefix ''border'') s = []"
  shows "setsBordersSettings s = Inr (applyBordersSettings (customBorders s) s)"
  using assms by (simp add: setsBordersSettings_def purgeBorderNodes_def rangeEachE_def)

lemma no_border_cells_emptyHot:
  "nodes s = nodes emptyHot \<Longrightarrow> rootElement s = rootElement emptyHot \<Longrightarrow>
   querySelectorAll (TdClassPrefix ''border'') s = []"
  by (simp add: querySelectorAll_def emptyHot_def)

section \<open>The claims\<close>

text \<open>
  C1, as stated, fails: a range entry that names only some sides still writes a
  descriptor to every boundary cell. With only \<^verbatim>\<open>bottom\<close> on the range from (0,0) to
  (1,1), cell (0,0) had no descriptor and gets an all-hidden one; with only \<^verbatim>\<open>top\<close>,
  cell (1,0) gets one as well.
\<close>

theorem range_only_top_counterexample:
  "cellMeta emptyHot (0, 0) = None \<and>
   cellMeta (prepareBorderFromCustomAddedRange
               \<lparr>from' = \<lparr>row = 0, col = 0\<rparr>, to' = \<lparr>row = 1, col = 1\<rparr>\<rparr>
               [(''bottom'', createDefaultCustomBorder)] emptyHot) (0, 0)
     = Some (createEmptyBorders 0 0) \<and>
   cellMeta emptyHot (1, 0) = None \<and>
   cellMeta (prepareBorderFromCustomAddedRange
               \<lparr>from' = \<lparr>row = 0, col = 0\<rparr>, to' = \<lparr>row = 1, col = 1\<rparr>\<rparr>
               [(''top'', createDefaultCustomBorder)] emptyHot) (1, 0)
     = Some (createEmptyBorders 1 0)"
  by (simp add: cellMeta_prepareBorderFromCustomAddedRange fst_rangeCellBorder
      snd_rangeCellBorder_only_top snd_rangeCellBorder_only_bottom emptyHot_def)

text \<open>
  C1, amended. A range entry that names only some sides writes a fresh descriptor to
  every cell on the boundary of the rectangle and leaves the interior cells alone. With
  only \<^verbatim>\<open>top\<close> on a range with \<open>r1 > r0\<close> and \<open>c1 > c0\<close>, the cells of row \<open>r0\<close> get the
  top side and no other side, and the other boundary cells get an all-hidden descriptor.
  With only \<^verbatim>\<open>bottom\<close> on the range from (0,0) to (1,1), cells (1,0) and (1,1) get the
  bottom side and cells (0,0) and (0,1) get an all-hidden descriptor.
\<close>

theorem range_only_some_sides_writes_whole_boundary:
  assumes "map_of rowObj k = Some v"
    and "map_of rowObj ''left'' = None" and "map_of rowObj ''right'' = None"
  shows "(k = ''top'' \<and> map_of rowObj ''bottom'' = None \<and>
          row (from' rng) < row (to' rng) \<and> col (from' rng) < col (to' rng) \<longrightarrow>
          cellMeta (prepareBorderFromCustomAddedRange rng rowObj s) (r, c) =
            (if row (from' rng) \<le> r \<and> r \<le> row (to' rng) \<and>
                col (from' rng) \<le> c \<and> c \<le> col (to' rng) \<and>
                (r = row (from' rng) \<or> r = row (to' rng) \<or>
                 c = col (from' rng) \<or> c = col (to' rng))
             then Some (if r = row (from' rng)
                        then AList.update ''top'' v (createEmptyBorders r c)
                        else createEmptyBorders r c)
             else cellMeta s (r, c))) \<and>
         (k = ''bottom'' \<and> map_of rowObj ''top'' = None \<and>
          rng = \<lparr>from' = \<lparr>row = 0, col = 0\<rparr>, to' = \<lparr>row = 1, col = 1\<rparr>\<rparr> \<longrightarrow>
          cellMeta (prepareBorderFromCustomAddedRange rng rowObj s) (1, 0) =
            Some (AList.update ''bottom'' v (createEmptyBorders 1 0)) \<and>
          cellMeta (prepareBorderFromCustomAddedRange rng rowObj s) (1, 1) =
            Some (AList.update ''bottom'' v (createEmptyBorders 1 1)) \<and>
          cellMeta (prepareBorderFromCustomAddedRange rng rowObj s) (0, 0) =
            Some (createEmptyBorders 0 0) \<and>
          cellMeta (prepareBorderFromCustomAddedRange rng rowObj s) (0, 1) =
            Some (createEmptyBorders 0 1))"
proof (intro conjI impI)
  assume top: "k = ''top'' \<and> map_of rowObj ''bottom'' = None \<and>
          row (from' rng) < row (to' rng) \<and> col (from' rng) < col (to' rng)"
  with assms show "cellMeta (prepareBorderFromCustomAddedRange rng rowObj s) (r, c) =
            (if row (from' rng) \<le> r \<and> r \<le> row (to' rng) \<and>
                col (from' rng) \<le> c \<and> c \<le> col (to' rng) \<and>
                (r = row (from' rng) \<or> r = row (to' rng) \<or>
                 c = col (from' rng) \<or> c = col (to' rng))
             then Some (if r = row (from' rng)
                        then AList.update ''top'' v (createEmptyBorders r c)
                        else createEmptyBorders r c)
             else cellMeta s (r, c))"
    by (auto simp: cellMeta_prepareBorderFromCustomAddedRange fst_rangeCellBorder
        snd_rangeCellBorder_only_top)
next
  assume bot: "k = ''bottom'' \<and> map_of rowObj ''top'' = None \<and>
          rng = \<lparr>from' = \<lparr>row = 0, col = 0\<rparr>, to' = \<lparr>row = 1, col = 1\<rparr>\<rparr>"
  show "cellMeta (prepareBorderFromCustomAddedRange rng rowObj s) (1, 0) =
            Some (AList.update ''bottom'' v (createEmptyBorders 1 0))"
    using assms bot by (simp add: cellMeta_prepareBorderFromCustomAddedRange fst_rangeCellBorder
        snd_rangeCellBorder_only_bottom)
  show "cellMeta (prepareBorderFromCustomAddedRange rng rowObj s) (1, 1) =
            Some (AList.update ''bottom'' v (createEmptyBorders 1 1))"
    using assms bot by (simp add: cellMeta_prepareBorderFromCustomAddedRange fst_rangeCellBorder
        snd_rangeCellBorder_only_bottom)
  show "cellMeta (prepareBorderFromCustomAddedRange rng rowObj s) (0, 0) =
            Some (createEmptyBorders 0 0)"
    using assms bot by (simp add: cellMeta_prepareBorderFromCustomAddedRange fst_rangeCellBorder
        snd_rangeCellBorder_only_bottom)
  show "cellMeta (prepareBorderFromCustomAddedRange rng rowObj s) (0, 1) =
            Some (createEmptyBorders 0 1)"
    using assms bot by (simp add: cellMeta_prepareBorderFromCustomAddedRange fst_rangeCellBorder
        snd_rangeCellBorder_only_bottom)
qed

theorem range_only_some_sides_writes_whole_boundary_witness:
  "cellMeta (prepareBorderFromCustomAddedRange
               \<lparr>from' = \<lparr>row = 1, col = 1\<rparr>, to' = \<lparr>row = 3, col = 4\<rparr>\<rparr>
               [(''top'', Obj [(''width'', Num 2)])] emptyHot) (3, 2) =
     Some (createEmptyBorders 3 2) \<and>
   cellMeta (prepareBorderFromCustomAddedRange
               \<lparr>from' = \<lparr>row = 0, col = 0\<rparr>, to' = \<lparr>row = 1, col = 1\<rparr>\<rparr>
               [(''bottom'', Obj [(''width'', Num 2)])] emptyHot) (0, 1) =
     Some (createEmptyBorders 0 1)"
  using range_only_some_sides_writes_whole_boundary
    [of "[(''top'', Obj [(''width'', Num 2)])]" "''top''" "Obj [(''width'', Num 2)]"
        "\<lparr>from' = \<lparr>row = 1, col = 1\<rparr>, to' = \<lparr>row = 3, col = 4\<rparr>\<rparr>" emptyHot 3 2]
    range_only_some_sides_writes_whole_boundary
    [of "[(''bottom'', Obj [(''width'', Num 2)])]" "''bottom''" "Obj [(''width'', Num 2)]"
        "\<lparr>from' = \<lparr>row = 0, col = 0\<rparr>, to' = \<lparr>row = 1, col = 1\<rparr>\<rparr>" emptyHot]
  by simp

text \<open>
  C2. The claim: the upsert keeps at most one overlay entry per class name, replacing
  the entry of the same class name in place. The code appends always, since
  \<open>getSettingIndex\<close> gives \<open>-1\<close> for every list: inserting the descriptor of cell (0,0)
  into a list that holds an entry of that class name gives two entries of it.
\<close>

theorem insertBorderIntoSettings_appends_duplicate:
  "selections renderedHot =
     [\<lparr>settings = createEmptyBorders 0 0, coordinates = (Some (Num 0), Some (Num 0))\<rparr>] \<and>
   map_of (createEmptyBorders 0 0) ''className'' = Some (Str ''border_row0col0'') \<and>
   getSettingIndex (Some (Str ''border_row0col0'')) renderedHot = - 1 \<and>
   selections (insertBorderIntoSettings (createEmptyBorders 0 0) renderedHot) =
     [\<lparr>settings = createEmptyBorders 0 0, coordinates = (Some (Num 0), Some (Num 0))\<rparr>,
      \<lparr>settings = createEmptyBorders 0 0, coordinates = (Some (Num 0), Some (Num 0))\<rparr>]"
  by (simp add: insertBorderIntoSettings_push renderedHot_def createEmptyBorders_def
      createClassName_def showInt_def showNat.simps)

text \<open>
  C3. In the expansion of a range entry, a cell of the rectangle that lies on its
  boundary is written a descriptor whose top side is the entry's \<^verbatim>\<open>top\<close> exactly when
  the cell is in the first row (and the entry names \<^verbatim>\<open>top\<close>), and likewise \<^verbatim>\<open>bottom\<close>
  for the last row, \<^verbatim>\<open>left\<close> for the first column and \<^verbatim>\<open>right\<close> for the last column;
  every other side is hidden, so a corner cell has both sides of its corner. An interior
  cell keeps its metadata, and no descriptor is written for it (the log has no further
  \<^verbatim>\<open>setCellMeta\<close> call for it).
\<close>

theorem range_sides_apply_to_their_boundary:
  assumes "row (from' rng) \<le> r" and "r \<le> row (to' rng)"
    and "col (from' rng) \<le> c" and "c \<le> col (to' rng)"
  shows "if r = row (from' rng) \<or> r = row (to' rng) \<or> c = col (from' rng) \<or> c = col (to' rng)
         then \<exists>d. cellMeta (prepareBorderFromCustomAddedRange rng rowObj s) (r, c) = Some d \<and>
                map_of d ''top'' =
                  Some (if r = row (from' rng)
                        then (case map_of rowObj ''top'' of
                                None \<Rightarrow> createSingleEmptyBorder | Some v \<Rightarrow> v)
                        else createSingleEmptyBorder) \<and>
                map_of d ''bottom'' =
                  Some (if r = row (to' rng)
                        then (case map_of rowObj ''bottom'' of
                                None \<Rightarrow> createSingleEmptyBorder | Some v \<Rightarrow> v)
                        else createSingleEmptyBorder) \<and>
                map_of d ''left'' =
                  Some (if c = col (from' rng)
                        then (case map_of rowObj ''left'' of
                                None \<Rightarrow> createSingleEmptyBorder | Some v \<Rightarrow> v)
                        else createSingleEmptyBorder) \<and>
                map_of d ''right'' =
                  Some (if c = col (to' rng)
                        then (case map_of rowObj ''right'' of
                                None \<Rightarrow> createSingleEmptyBorder | Some v \<Rightarrow> v)
                        else createSingleEmptyBorder)
         else cellMeta (prepareBorderFromCustomAddedRange rng rowObj s) (r, c) = cellMeta s (r, c) \<and>
              count_list (calls (prepareBorderFromCustomAddedRange rng rowObj s)) (SetCellMeta r c) =
              count_list (calls s) (SetCellMeta r c)"
proof (cases "r = row (from' rng) \<or> r = row (to' rng) \<or> c = col (from' rng) \<or> c = col (to' rng)")
  case True
  then have pos: "0 < fst (rangeCellBorder rng rowObj r c)"
    by (simp add: fst_rangeCellBorder)
  have "cellMeta (prepareBorderFromCustomAddedRange rng rowObj s) (r, c) =
          Some (snd (rangeCellBorder rng rowObj r c))"
    using assms pos by (simp add: cellMeta_prepareBorderFromCustomAddedRange)
  then show ?thesis
    using True by (simp add: snd_rangeCellBorder_sides)
next
  case False
  then have zero: "\<not> 0 < fst (rangeCellBorder rng rowObj r c)"
    by (simp add: fst_rangeCellBorder)
  show ?thesis
    using False zero
    by (simp add: cellMeta_prepareBorderFromCustomAddedRange
        unwritten_prepareBorderFromCustomAddedRange)
qed

theorem range_sides_apply_to_their_boundary_witness:
  "(\<exists>d. cellMeta (prepareBorderFromCustomAddedRange
              \<lparr>from' = \<lparr>row = 1, col = 1\<rparr>, to' = \<lparr>row = 3, col = 4\<rparr>\<rparr>
              [(''top'', Obj [(''width'', Num 2)]), (''left'', Obj [(''width'', Num 3)])]
              emptyHot) (1, 1) = Some d \<and>
        map_of d ''top'' = Some (Obj [(''width'', Num 2)]) \<and>
        map_of d ''bottom'' = Some createSingleEmptyBorder \<and>
        map_of d ''left'' = Some (Obj [(''width'', Num 3)]) \<and>
        map_of d ''right'' = Some createSingleEmptyBorder)"
  using range_sides_apply_to_their_boundary
    [of "\<lparr>from' = \<lparr>row = 1, col = 1\<rparr>, to' = \<lparr>row = 3, col = 4\<rparr>\<rparr>" 1 1
        "[(''top'', Obj [(''width'', Num 2)]), (''left'', Obj [(''width'', Num 3)])]" emptyHot]
  by simp

text \<open>
  C4, as stated, fails: a point entry does not read the cell's stored descriptor. A
  cell whose stored top side is visible has a hidden top side after an entry that names
  only \<^verbatim>\<open>left\<close>.
\<close>

theorem point_entry_unmentioned_sides_counterexample:
  "cellMeta (setCellMeta 1 1 (AList.update ''top'' createDefaultCustomBorder
                                (createEmptyBorders 1 1)) emptyHot) (1, 1) =
     Some (AList.update ''top'' createDefaultCustomBorder (createEmptyBorders 1 1)) \<and>
   map_of (AList.update ''top'' createDefaultCustomBorder (createEmptyBorders 1 1)) ''top'' =
     Some createDefaultCustomBorder \<and>
   cellMeta (prepareBorderFromCustomAdded 1 1
               [(''left'', Obj [(''width'', Num 2), (''color'', Str ''red'')])]
               (setCellMeta 1 1 (AList.update ''top'' createDefaultCustomBorder
                                   (createEmptyBorders 1 1)) emptyHot)) (1, 1) =
     Some (AList.update ''left'' (Obj [(''width'', Num 2), (''color'', Str ''red'')])
             (createEmptyBorders 1 1)) \<and>
   map_of (AList.update ''left'' (Obj [(''width'', Num 2), (''color'', Str ''red'')])
             (createEmptyBorders 1 1)) ''top'' =
     Some createSingleEmptyBorder \<and>
   createSingleEmptyBorder \<noteq> createDefaultCustomBorder"
  by (simp add: cellMeta_prepareBorderFromCustomAdded extendDefaultBorder_def assignOwn_def
      hasOwnProperty_def map_of_createEmptyBorders_sides setCellMeta_def update_conv'
      createSingleEmptyBorder_def createDefaultCustomBorder_def)

text \<open>
  C4, amended. Applying a point entry builds the descriptor of the cell afresh: a side
  that the entry sets is the entry's, and every side that the entry does not mention is
  hidden, whatever the cell's stored descriptor was.
\<close>

theorem point_entry_builds_fresh_descriptor:
  "\<exists>d. cellMeta (prepareBorderFromCustomAdded r c borderObj s) (r, c) = Some d \<and>
       map_of d ''top'' =
         Some (case map_of borderObj ''top'' of None \<Rightarrow> createSingleEmptyBorder | Some v \<Rightarrow> v) \<and>
       map_of d ''right'' =
         Some (case map_of borderObj ''right'' of None \<Rightarrow> createSingleEmptyBorder | Some v \<Rightarrow> v) \<and>
       map_of d ''bottom'' =
         Some (case map_of borderObj ''bottom'' of None \<Rightarrow> createSingleEmptyBorder | Some v \<Rightarrow> v) \<and>
       map_of d ''left'' =
         Some (case map_of borderObj ''left'' of None \<Rightarrow> createSingleEmptyBorder | Some v \<Rightarrow> v)"
  by (simp add: cellMeta_prepareBorderFromCustomAdded map_of_extendDefaultBorder
      map_of_createEmptyBorders_sides split: option.splits)

text \<open>
  C5, as stated, fails: \<^verbatim>\<open>removeAllBorders\<close> does not touch the overlay list. The entry
  of cell (0,0) is still in it after the action.
\<close>

theorem removeAllBorders_keeps_overlay_counterexample:
  "removeAllBorders 0 0 renderedHot = Inr (projr (removeAllBorders 0 0 renderedHot)) \<and>
   selections (projr (removeAllBorders 0 0 renderedHot)) =
     [\<lparr>settings = createEmptyBorders 0 0, coordinates = (Some (Num 0), Some (Num 0))\<rparr>] \<and>
   map_of (createEmptyBorders 0 0) ''className'' = Some (Str (createClassName 0 0))"
  by (simp add: dom_eval)

text \<open>
  C5, amended. The no-borders action on a cell removes the \<^verbatim>\<open>borders\<close> metadata entry
  (a later read finds none) and the border nodes of the cell: whatever still carries the
  class name of the cell under the root element is a table cell, or a child of the root
  element itself. The overlay list is left as it was. (The action returns on every tree
  in document order: \<open>removeAllBorders_returns\<close>.)
\<close>

theorem removeAllBorders_forgets_cell_keeps_overlay:
  assumes "removeAllBorders r c s = Inr s'"
  shows "cellMeta s' (r, c) = None \<and>
         selections s' = selections s \<and>
         (\<forall>n \<in> set (querySelectorAll (ClassSelector (createClassName r c)) s').
            nodeName (nodes s' ! n) = ''TD'' \<or>
            parentNode (nodes s' ! n) = Some (rootElement s'))"
proof -
  from assms obtain s1 where dom: "removeBordersFromDom (createClassName r c) s = Inr s1"
    and s': "s' = removeCellMeta r c s1"
    by (auto simp: removeAllBorders_def Let_def split: sum.splits)
  have same: "nodes s' = nodes s1" "rootElement s' = rootElement s1"
    by (simp_all add: s' removeCellMeta_def)
  have q: "querySelectorAll sel s' = querySelectorAll sel s1" for sel
    by (simp add: querySelectorAll_def same)
  have "nodeName (nodes s' ! n) = ''TD'' \<or> parentNode (nodes s' ! n) = Some (rootElement s')"
    if "n \<in> set (querySelectorAll (ClassSelector (createClassName r c)) s')" for n
    using removeBordersFromDom_removes [OF dom, of n] that by (simp add: q same)
  then show ?thesis
    using removeAllBorders_result(1,2) [OF assms] by simp
qed

theorem removeAllBorders_forgets_cell_keeps_overlay_witness:
  "cellMeta renderedHot (0, 0) = Some (createEmptyBorders 0 0) \<and>
   cellMeta (projr (removeAllBorders 0 0 renderedHot)) (0, 0) = None \<and>
   selections (projr (removeAllBorders 0 0 renderedHot)) = selections renderedHot \<and>
   querySelectorAll (ClassSelector (createClassName 0 0)) renderedHot = [4, 5] \<and>
   querySelectorAll (ClassSelector (createClassName 0 0))
     (projr (removeAllBorders 0 0 renderedHot)) = [5]"
proof -
  have run: "removeAllBorders 0 0 renderedHot = Inr (projr (removeAllBorders 0 0 renderedHot))"
    by (simp add: dom_eval)
  have before: "cellMeta renderedHot (0, 0) = Some (createEmptyBorders 0 0)"
    by (simp add: renderedHot_def)
  have q0: "querySelectorAll (ClassSelector (createClassName 0 0)) renderedHot = [4, 5]"
    by (simp add: dom_eval)
  have q1: "querySelectorAll (ClassSelector (createClassName 0 0))
     (projr (removeAllBorders 0 0 renderedHot)) = [5]"
    by (simp add: dom_eval)
  from removeAllBorders_forgets_cell_keeps_overlay [OF run] before q0 q1
  show ?thesis by simp
qed

text \<open>
  C6, as stated, fails for a range action: \<^verbatim>\<open>setBorder\<close> ends with \<^verbatim>\<open>hot.render()\<close>, so
  the action on the two cells of a row asks for a redraw after each cell, the first
  time before the second cell is written.
\<close>

theorem range_action_redraws_per_cell_counterexample:
  "prepareBorder rowRange ''top'' False emptyHot =
     Inr (projr (prepareBorder rowRange ''top'' False emptyHot)) \<and>
   calls (projr (prepareBorder rowRange ''top'' False emptyHot)) =
     [SetCellMeta 0 0, SelectionPush, Render, SetCellMeta 0 1, SelectionPush, Render]"
  by (simp add: action_eval rowRange_def emptyHot_def)

text \<open>
  C6, amended. Within one application of a declarative configuration, all metadata
  writes and overlay insertions come before any redraw request, and the redraw is
  requested once (\<^verbatim>\<open>hot.render()\<close>, then \<^verbatim>\<open>wt.draw(true)\<close>). Within one action on a side
  of a range of several cells, a redraw request follows the write and the overlay
  insertion of each cell.
\<close>

theorem redraw_once_for_configuration_per_cell_for_range_action:
  "(\<exists>evs. calls (createCustomBorders cb s) = calls s @ evs @ [Render, Draw] \<and>
          Render \<notin> set evs \<and> Draw \<notin> set evs) \<and>
   (\<not> (row (from' rng) = row (to' rng) \<and> col (from' rng) = col (to' rng)) \<and>
    prepareBorder rng place remove s = Inr s' \<longrightarrow>
    (place = ''top'' \<longrightarrow>
       calls s' = calls s @
         concat (map (\<lambda>c. [SetCellMeta (row (from' rng)) c, SelectionPush, Render])
                   [col (from' rng)..col (to' rng)])) \<and>
    (place = ''right'' \<longrightarrow>
       calls s' = calls s @
         concat (map (\<lambda>r. [SetCellMeta r (col (to' rng)), SelectionPush, Render])
                   [row (from' rng)..row (to' rng)])) \<and>
    (place = ''bottom'' \<longrightarrow>
       calls s' = calls s @
         concat (map (\<lambda>c. [SetCellMeta (row (to' rng)) c, SelectionPush, Render])
                   [col (from' rng)..col (to' rng)])) \<and>
    (place = ''left'' \<longrightarrow>
       calls s' = calls s @
         concat (map (\<lambda>r. [SetCellMeta r (col (from' rng)), SelectionPush, Render])
                   [row (from' rng)..row (to' rng)])))"
proof (intro conjI impI)
  show "\<exists>evs. calls (createCustomBorders cb s) = calls s @ evs @ [Render, Draw] \<and>
          Render \<notin> set evs \<and> Draw \<notin> set evs"
    by (rule calls_createCustomBorders)
next
  assume h: "\<not> (row (from' rng) = row (to' rng) \<and> col (from' rng) = col (to' rng)) \<and>
    prepareBorder rng place remove s = Inr s'" and p: "place = ''top''"
  then have "foldE (\<lambda>x. setBorder (row (from' rng)) x ''top'' remove)
               [col (from' rng)..col (to' rng)] s = Inr s'"
    by (auto simp: prepareBorder_def rangeEachE_def)
  then show "calls s' = calls s @
         concat (map (\<lambda>c. [SetCellMeta (row (from' rng)) c, SelectionPush, Render])
                   [col (from' rng)..col (to' rng)])"
    by (rule foldE_setBorder_calls [where rf = "\<lambda>x. row (from' rng)" and cf = "\<lambda>x. x"])
next
  assume h: "\<not> (row (from' rng) = row (to' rng) \<and> col (from' rng) = col (to' rng)) \<and>
    prepareBorder rng place remove s = Inr s'" and p: "place = ''right''"
  then have "foldE (\<lambda>x. setBorder x (col (to' rng)) ''right'' False)
               [row (from' rng)..row (to' rng)] s = Inr s'"
    by (auto simp: prepareBorder_def rangeEachE_def)
  then show "calls s' = calls s @
         concat (map (\<lambda>r. [SetCellMeta r (col (to' rng)), SelectionPush, Render])
                   [row (from' rng)..row (to' rng)])"
    by (rule foldE_setBorder_calls [where rf = "\<lambda>x. x" and cf = "\<lambda>x. col (to' rng)"])
next
  assume h: "\<not> (row (from' rng) = row (to' rng) \<and> col (from' rng) = col (to' rng)) \<and>
    prepareBorder rng place remove s = Inr s'" and p: "place = ''bottom''"
  then have "foldE (\<lambda>x. setBorder (row (to' rng)) x ''bottom'' False)
               [col (from' rng)..col (to' rng)] s = Inr s'"
    by (auto simp: prepareBorder_def rangeEachE_def)
  then show "calls s' = calls s @
         concat (map (\<lambda>c. [SetCellMeta (row (to' rng)) c, SelectionPush, Render])
                   [col (from' rng)..col (to' rng)])"
    by (rule foldE_setBorder_calls [where rf = "\<lambda>x. row (to' rng)" and cf = "\<lambda>x. x"])
next
  assume h: "\<not> (row (from' rng) = row (to' rng) \<and> col (from' rng) = col (to' rng)) \<and>
    prepareBorder rng place remove s = Inr s'" and p: "place = ''left''"
  then have "foldE (\<lambda>x. setBorder x (col (from' rng)) ''left'' False)
               [row (from' rng)..row (to' rng)] s = Inr s'"
    by (auto simp: prepareBorder_def rangeEachE_def)
  then show "calls s' = calls s @
         concat (map (\<lambda>r. [SetCellMeta r (col (from' rng)), SelectionPush, Render])
                   [row (from' rng)..row (to' rng)])"
    by (rule foldE_setBorder_calls [where rf = "\<lambda>x. x" and cf = "\<lambda>x. col (from' rng)"])
qed

theorem redraw_once_for_configuration_per_cell_for_range_action_witness:
  "calls (projr (prepareBorder columnRange ''left'' False emptyHot)) =
     [SetCellMeta 0 0, SelectionPush, Render, SetCellMeta 1 0, SelectionPush, Render]"
proof -
  have multi: "\<not> (row (from' columnRange) = row (to' columnRange) \<and>
                  col (from' columnRange) = col (to' columnRange))"
    by (simp add: columnRange_def)
  have run: "prepareBorder columnRange ''left'' False emptyHot =
               Inr (projr (prepareBorder columnRange ''left'' False emptyHot))"
    by (simp add: action_eval columnRange_def emptyHot_def)
  from redraw_once_for_configuration_per_cell_for_range_action
    [of Absent emptyHot columnRange "''left''" False
        "projr (prepareBorder columnRange ''left'' False emptyHot)"] multi run
  have "calls (projr (prepareBorder columnRange ''left'' False emptyHot)) = calls emptyHot @
         concat (map (\<lambda>r. [SetCellMeta r (col (from' columnRange)), SelectionPush, Render])
                   [row (from' columnRange)..row (to' columnRange)])"
    by blast
  then show ?thesis
    by (simp add: columnRange_def emptyHot_def upto.simps)
qed

text \<open>
  C7. A run of the settings reconciliation on an array saves the array and writes its
  descriptors. A run on the setting \<^verbatim>\<open>true\<close> with a saved array keeps the saved array
  and writes the same descriptors again; with nothing saved, it writes nothing and only
  asks for the redraw.
\<close>

theorem saved_list_is_reapplied_for_sentinel:
  assumes "setsBordersSettings s = Inr s'"
  shows "(customBorders s = Entries es \<longrightarrow>
            savedSettings s' = Some es \<and>
            cellMeta s' = cellMeta s ++ appliedDescriptors es) \<and>
         (customBorders s = Flag True \<and> savedSettings s = Some es \<longrightarrow>
            savedSettings s' = Some es \<and>
            cellMeta s' = cellMeta s ++ appliedDescriptors es) \<and>
         (customBorders s = Flag True \<and> savedSettings s = None \<longrightarrow>
            savedSettings s' = None \<and> cellMeta s' = cellMeta s \<and>
            selections s' = selections s \<and> calls s' = calls s @ [Render, Draw])"
proof -
  from assms obtain s1 where p: "purgeBorderNodes s = Inr s1"
    and s': "s' = applyBordersSettings (customBorders s) s1"
    by (auto simp: setsBordersSettings_def Let_def split: sum.splits)
  note f = only_nodes_fields [OF purgeBorderNodes_only_nodes [OF p]]
  have a: "savedSettings s' = Some es \<and> cellMeta s' = cellMeta s ++ appliedDescriptors es"
    if "customBorders s = Entries es"
    using that
    by (simp add: s' applyBordersSettings_def frame_createCustomBorders
        cellMeta_createCustomBorders_Entries f)
  have b: "savedSettings s' = Some es \<and> cellMeta s' = cellMeta s ++ appliedDescriptors es"
    if "customBorders s = Flag True \<and> savedSettings s = Some es"
    using that
    by (simp add: s' applyBordersSettings_def frame_createCustomBorders
        cellMeta_createCustomBorders_Entries f)
  have c: "savedSettings s' = None \<and> cellMeta s' = cellMeta s \<and>
            selections s' = selections s \<and> calls s' = calls s @ [Render, Draw]"
    if "customBorders s = Flag True \<and> savedSettings s = None"
    using that
    by (simp add: s' applyBordersSettings_def createCustomBorders_not_Entries
        render_def draw_def f)
  from a b c show ?thesis by blast
qed

theorem saved_list_is_reapplied_for_sentinel_witness:
  "savedSettings (projr (setsBordersSettings configuredHot)) = Some leftRed \<and>
   appliedDescriptors leftRed (1, 1) =
     Some (AList.update ''left'' (Obj [(''width'', Num 2), (''color'', Str ''red'')])
             (createEmptyBorders 1 1)) \<and>
   cellMeta (projr (setsBordersSettings configuredHot)) (1, 1) = appliedDescriptors leftRed (1, 1) \<and>
   cellMeta reenabledHot (1, 1) = None \<and>
   cellMeta (projr (setsBordersSettings reenabledHot)) (1, 1) = appliedDescriptors leftRed (1, 1)"
proof -
  have cfg: "customBorders configuredHot = Entries leftRed"
    by (simp add: configuredHot_def)
  have run1: "setsBordersSettings configuredHot = Inr (projr (setsBordersSettings configuredHot))"
    by (simp add: setsBordersSettings_no_border_cells no_border_cells_emptyHot configuredHot_def)
  from saved_list_is_reapplied_for_sentinel [OF run1, of leftRed] cfg
  have s1: "savedSettings (projr (setsBordersSettings configuredHot)) = Some leftRed"
    and m1: "cellMeta (projr (setsBordersSettings configuredHot)) =
               cellMeta configuredHot ++ appliedDescriptors leftRed"
    by blast+
  have ad: "appliedDescriptors leftRed (1, 1) =
     Some (AList.update ''left'' (Obj [(''width'', Num 2), (''color'', Str ''red'')])
             (createEmptyBorders 1 1))"
    by (simp add: appliedDescriptors_def createCustomBorders_Entries render_def draw_def
        leftRed_def createCustomBordersEntry_def cellMeta_prepareBorderFromCustomAdded
        extendDefaultBorder_def assignOwn_def hasOwnProperty_def)
  have same: "nodes reenabledHot = nodes emptyHot" "rootElement reenabledHot = rootElement emptyHot"
    by (simp_all add: reenabledHot_def removeCellMeta_def setsBordersSettings_no_border_cells
        no_border_cells_emptyHot configuredHot_def nodes_applyBordersSettings
        rootElement_applyBordersSettings)
  have run2: "setsBordersSettings reenabledHot = Inr (projr (setsBordersSettings reenabledHot))"
    by (simp add: setsBordersSettings_no_border_cells no_border_cells_emptyHot same)
  have re: "customBorders reenabledHot = Flag True \<and> savedSettings reenabledHot = Some leftRed"
    by (simp add: reenabledHot_def removeCellMeta_def s1)
  from saved_list_is_reapplied_for_sentinel [OF run2, of leftRed] re
  have m2: "cellMeta (projr (setsBordersSettings reenabledHot)) =
               cellMeta reenabledHot ++ appliedDescriptors leftRed"
    by blast
  have cleared: "cellMeta reenabledHot (1, 1) = None"
    by (simp add: reenabledHot_def removeCellMeta_def)
  show ?thesis
    by (simp add: s1 m1 m2 ad cleared map_add_def)
qed

text \<open>
  C8. On a range of several cells, the actions \<^verbatim>\<open>left\<close>, \<^verbatim>\<open>right\<close> and \<^verbatim>\<open>bottom\<close> do
  the same whatever the flag, and set the default visible side on their cells; the
  action \<^verbatim>\<open>top\<close> passes the flag on, and sets the hidden side when the flag is set.
\<close>

theorem clear_forwarded_for_top_only:
  assumes "\<not> (row (from' rng) = row (to' rng) \<and> col (from' rng) = col (to' rng))"
  shows "prepareBorder rng ''left'' remove s = prepareBorder rng ''left'' False s \<and>
         prepareBorder rng ''right'' remove s = prepareBorder rng ''right'' False s \<and>
         prepareBorder rng ''bottom'' remove s = prepareBorder rng ''bottom'' False s \<and>
         (prepareBorder rng ''top'' remove s = Inr s' \<and>
          col (from' rng) \<le> c \<and> c \<le> col (to' rng) \<longrightarrow>
          (\<exists>d. cellMeta s' (row (from' rng), c) = Some d \<and>
               map_of d ''top'' = Some (if remove then createSingleEmptyBorder
                                        else createDefaultCustomBorder))) \<and>
         (prepareBorder rng ''bottom'' remove s = Inr s' \<and>
          col (from' rng) \<le> c \<and> c \<le> col (to' rng) \<longrightarrow>
          (\<exists>d. cellMeta s' (row (to' rng), c) = Some d \<and>
               map_of d ''bottom'' = Some createDefaultCustomBorder)) \<and>
         (prepareBorder rng ''left'' remove s = Inr s' \<and>
          row (from' rng) \<le> r \<and> r \<le> row (to' rng) \<longrightarrow>
          (\<exists>d. cellMeta s' (r, col (from' rng)) = Some d \<and>
               map_of d ''left'' = Some createDefaultCustomBorder)) \<and>
         (prepareBorder rng ''right'' remove s = Inr s' \<and>
          row (from' rng) \<le> r \<and> r \<le> row (to' rng) \<longrightarrow>
          (\<exists>d. cellMeta s' (r, col (to' rng)) = Some d \<and>
               map_of d ''right'' = Some createDefaultCustomBorder))"
proof (intro conjI impI)
  have multi: "(row (from' rng) = row (to' rng) \<and> col (from' rng) = col (to' rng)) = False"
    using assms by simp
  show "prepareBorder rng ''left'' remove s = prepareBorder rng ''left'' False s"
    by (simp add: prepareBorder_def multi)
  show "prepareBorder rng ''right'' remove s = prepareBorder rng ''right'' False s"
    by (simp add: prepareBorder_def multi)
  show "prepareBorder rng ''bottom'' remove s = prepareBorder rng ''bottom'' False s"
    by (simp add: prepareBorder_def multi)
next
  assume h: "prepareBorder rng ''top'' remove s = Inr s' \<and>
          col (from' rng) \<le> c \<and> c \<le> col (to' rng)"
  then have "foldE (\<lambda>x. setBorder (row (from' rng)) x ''top'' remove)
               [col (from' rng)..col (to' rng)] s = Inr s'"
    using assms by (auto simp: prepareBorder_def rangeEachE_def)
  moreover have "c \<in> set [col (from' rng)..col (to' rng)]" using h by simp
  ultimately show "\<exists>d. cellMeta s' (row (from' rng), c) = Some d \<and>
               map_of d ''top'' = Some (if remove then createSingleEmptyBorder
                                        else createDefaultCustomBorder)"
    by (rule foldE_setBorder_sets_side [where rf = "\<lambda>x. row (from' rng)" and cf = "\<lambda>x. x"])
next
  assume h: "prepareBorder rng ''bottom'' remove s = Inr s' \<and>
          col (from' rng) \<le> c \<and> c \<le> col (to' rng)"
  then have "foldE (\<lambda>x. setBorder (row (to' rng)) x ''bottom'' False)
               [col (from' rng)..col (to' rng)] s = Inr s'"
    using assms by (auto simp: prepareBorder_def rangeEachE_def)
  moreover have "c \<in> set [col (from' rng)..col (to' rng)]" using h by simp
  ultimately have "\<exists>d. cellMeta s' (row (to' rng), c) = Some d \<and>
               map_of d ''bottom'' = Some (if False then createSingleEmptyBorder
                                        else createDefaultCustomBorder)"
    by (rule foldE_setBorder_sets_side [where rf = "\<lambda>x. row (to' rng)" and cf = "\<lambda>x. x"])
  then show "\<exists>d. cellMeta s' (row (to' rng), c) = Some d \<and>
               map_of d ''bottom'' = Some createDefaultCustomBorder"
    by simp
next
  assume h: "prepareBorder rng ''left'' remove s = Inr s' \<and>
          row (from' rng) \<le> r \<and> r \<le> row (to' rng)"
  then have "foldE (\<lambda>x. setBorder x (col (from' rng)) ''left'' False)
               [row (from' rng)..row (to' rng)] s = Inr s'"
    using assms by (auto simp: prepareBorder_def rangeEachE_def)
  moreover have "r \<in> set [row (from' rng)..row (to' rng)]" using h by simp
  ultimately have "\<exists>d. cellMeta s' (r, col (from' rng)) = Some d \<and>
               map_of d ''left'' = Some (if False then createSingleEmptyBorder
                                        else createDefaultCustomBorder)"
    by (rule foldE_setBorder_sets_side [where rf = "\<lambda>x. x" and cf = "\<lambda>x. col (from' rng)"])
  then show "\<exists>d. cellMeta s' (r, col (from' rng)) = Some d \<and>
               map_of d ''left'' = Some createDefaultCustomBorder"
    by simp
next
  assume h: "prepareBorder rng ''right'' remove s = Inr s' \<and>
          row (from' rng) \<le> r \<and> r \<le> row (to' rng)"
  then have "foldE (\<lambda>x. setBorder x (col (to' rng)) ''right'' False)
               [row (from' rng)..row (to' rng)] s = Inr s'"
    using assms by (auto simp: prepareBorder_def rangeEachE_def)
  moreover have "r \<in> set [row (from' rng)..row (to' rng)]" using h by simp
  ultimately have "\<exists>d. cellMeta s' (r, col (to' rng)) = Some d \<and>
               map_of d ''right'' = Some (if False then createSingleEmptyBorder
                                        else createDefaultCustomBorder)"
    by (rule foldE_setBorder_sets_side [where rf = "\<lambda>x. x" and cf = "\<lambda>x. col (to' rng)"])
  then show "\<exists>d. cellMeta s' (r, col (to' rng)) = Some d \<and>
               map_of d ''right'' = Some createDefaultCustomBorder"
    by simp
qed

theorem clear_forwarded_for_top_only_witness:
  "(\<exists>d. cellMeta (projr (prepareBorder rowRange ''top'' True emptyHot)) (0, 1) = Some d \<and>
        map_of d ''top'' = Some createSingleEmptyBorder) \<and>
   (\<exists>d. cellMeta (projr (prepareBorder rowRange ''bottom'' True emptyHot)) (0, 1) = Some d \<and>
        map_of d ''bottom'' = Some createDefaultCustomBorder)"
proof -
  have multi: "\<not> (row (from' rowRange) = row (to' rowRange) \<and>
                  col (from' rowRange) = col (to' rowRange))"
    by (simp add: rowRange_def)
  have top: "prepareBorder rowRange ''top'' True emptyHot =
               Inr (projr (prepareBorder rowRange ''top'' True emptyHot))"
    by (simp add: action_eval rowRange_def emptyHot_def)
  have bottom: "prepareBorder rowRange ''bottom'' True emptyHot =
               Inr (projr (prepareBorder rowRange ''bottom'' True emptyHot))"
    by (simp add: action_eval rowRange_def emptyHot_def)
  have cols: "col (from' rowRange) \<le> 1 \<and> 1 \<le> col (to' rowRange)"
    by (simp add: rowRange_def)
  have rows: "row (to' rowRange) = 0" "row (from' rowRange) = 0"
    by (simp_all add: rowRange_def)
  from clear_forwarded_for_top_only [OF multi, of True emptyHot
      "projr (prepareBorder rowRange ''top'' True emptyHot)" 1] top cols
  have "\<exists>d. cellMeta (projr (prepareBorder rowRange ''top'' True emptyHot))
               (row (from' rowRange), 1) = Some d \<and>
        map_of d ''top'' = Some (if True then createSingleEmptyBorder
                                 else createDefaultCustomBorder)"
    by blast
  then have a: "\<exists>d. cellMeta (projr (prepareBorder rowRange ''top'' True emptyHot)) (0, 1) = Some d \<and>
        map_of d ''top'' = Some createSingleEmptyBorder"
    by (simp add: rows)
  from clear_forwarded_for_top_only [OF multi, of True emptyHot
      "projr (prepareBorder rowRange ''bottom'' True emptyHot)" 1] bottom cols
  have "\<exists>d. cellMeta (projr (prepareBorder rowRange ''bottom'' True emptyHot))
               (row (to' rowRange), 1) = Some d \<and>
        map_of d ''bottom'' = Some createDefaultCustomBorder"
    by blast
  then have b: "\<exists>d. cellMeta (projr (prepareBorder rowRange ''bottom'' True emptyHot)) (0, 1) = Some d \<and>
        map_of d ''bottom'' = Some createDefaultCustomBorder"
    by (simp add: rows)
  from a b show ?thesis by simp
qed

text \<open>
  C9. The claim: an action that is none of the five known ones changes nothing, on a
  range of one cell as on a range of several cells. On several cells the code agrees
  (\<open>prepareBorder_unknown_place_multi_cell\<close>). On one cell it calls \<^verbatim>\<open>setBorder\<close> with the
  unknown name: the cell gets a descriptor with a property of that name, the overlay
  list gets an entry, and a redraw is requested.
\<close>

theorem prepareBorder_unknown_place_single_cell:
  "cellMeta emptyHot (0, 0) = None \<and> selections emptyHot = [] \<and> calls emptyHot = [] \<and>
   prepareBorder cellRange00 ''foo'' False emptyHot =
     Inr (projr (prepareBorder cellRange00 ''foo'' False emptyHot)) \<and>
   cellMeta (projr (prepareBorder cellRange00 ''foo'' False emptyHot)) (0, 0) =
     Some (createEmptyBorders 0 0 @ [(''foo'', createDefaultCustomBorder)]) \<and>
   length (selections (projr (prepareBorder cellRange00 ''foo'' False emptyHot))) = 1 \<and>
   calls (projr (prepareBorder cellRange00 ''foo'' False emptyHot)) =
     [SetCellMeta 0 0, SelectionPush, Render]"
  by (simp add: action_eval cellRange00_def emptyHot_def)

text \<open>
  C10. The rendered tree after a run of the settings reconciliation is the tree after
  the blanket purge (and the run throws exactly when the purge does), whatever the
  setting is. When the setting is absent or false, the run is the purge alone: the
  metadata, the overlay list, the saved array and the log of calls are as before.
\<close>

theorem purge_runs_whatever_the_setting:
  "map_sum id nodes (setsBordersSettings s) = map_sum id nodes (purgeBorderNodes s) \<and>
   (\<not> truthy (customBorders s) \<and> setsBordersSettings s = Inr s' \<longrightarrow>
      purgeBorderNodes s = Inr s' \<and>
      cellMeta s' = cellMeta s \<and> selections s' = selections s \<and>
      calls s' = calls s \<and> savedSettings s' = savedSettings s)"
proof (intro conjI impI)
  show "map_sum id nodes (setsBordersSettings s) = map_sum id nodes (purgeBorderNodes s)"
    by (cases "purgeBorderNodes s")
      (simp_all add: setsBordersSettings_def Let_def nodes_applyBordersSettings)
next
  assume h: "\<not> truthy (customBorders s) \<and> setsBordersSettings s = Inr s'"
  then show p: "purgeBorderNodes s = Inr s'"
    by (cases "purgeBorderNodes s")
      (auto simp: setsBordersSettings_def Let_def applyBordersSettings_def)
  note f = only_nodes_fields [OF purgeBorderNodes_only_nodes [OF p]]
  show "cellMeta s' = cellMeta s" by (rule f)
  show "selections s' = selections s" by (rule f)
  show "calls s' = calls s" by (rule f)
  show "savedSettings s' = savedSettings s" by (rule f)
qed

theorem purge_runs_whatever_the_setting_witness:
  "map (\<lambda>n. parentNode (nodes disabledHot ! n)) [3, 4, 5] = [Some 2, Some 3, Some 1] \<and>
   map (\<lambda>n. parentNode (nodes (projr (setsBordersSettings disabledHot)) ! n)) [3, 4, 5] =
     [None, Some 3, Some 1] \<and>
   cellMeta (projr (setsBordersSettings disabledHot)) = cellMeta disabledHot \<and>
   selections (projr (setsBordersSettings disabledHot)) = selections disabledHot \<and>
   calls (projr (setsBordersSettings disabledHot)) = calls disabledHot \<and>
   savedSettings (projr (setsBordersSettings disabledHot)) = savedSettings disabledHot"
proof -
  have falsy: "\<not> truthy (customBorders disabledHot)"
    by (simp add: disabledHot_def)
  have run: "setsBordersSettings disabledHot = Inr (projr (setsBordersSettings disabledHot))"
    by (simp add: setsBordersSettings_def purgeBorderNodes_def applyBordersSettings_def
        className_def disabledHot_def dom_eval)
  have before: "map (\<lambda>n. parentNode (nodes disabledHot ! n)) [3, 4, 5] =
      [Some 2, Some 3, Some 1]"
    by (simp add: disabledHot_def renderedHot_def borderNodes_def)
  have after: "map (\<lambda>n. parentNode (nodes (projr (setsBordersSettings disabledHot)) ! n))
      [3, 4, 5] = [None, Some 3, Some 1]"
    by (simp add: setsBordersSettings_def purgeBorderNodes_def applyBordersSettings_def
        className_def disabledHot_def dom_eval)
  from purge_runs_whatever_the_setting
    [of disabledHot "projr (setsBordersSettings disabledHot)"] falsy run before after
  show ?thesis by simp
qed

end
